theory Spec2Isabelle
  imports Complex_Main "HOL-Library.Word"
begin

section \<open>The dial widget of app/widgets/gimpdial.c\<close>

text \<open>
  The widget keeps two angles, \<open>alpha\<close> and \<open>beta\<close>, and lets the pointer drag either of
  them or both. This theory embeds the angle arithmetic, the press and motion handlers and
  the background pass of \<^verbatim>\<open>gimpdial.c\<close>.

  Numbers. The functions are embedded twice. In the first part \<^verbatim>\<open>gdouble\<close> is embedded as
  \<^typ>\<open>real\<close>: arithmetic is exact and \<^verbatim>\<open>G_PI\<close> is \<^term>\<open>pi\<close>. The statements about the
  decisions of the code, which relate values the code itself computes, are made on this
  embedding. In the second part every floating-point operation is rounded as the machine
  rounds it; the statements that turn on the last bits of a result are made there.
  \<^verbatim>\<open>gint\<close> is embedded as \<^typ>\<open>int\<close>; the one place where its width matters carries an
  explicit bound.
\<close>

subsection \<open>Constants and macros\<close>

definition EACH_OR_BOTH :: real where
  "EACH_OR_BOTH = 0.3"

text \<open>GLib's \<^verbatim>\<open>MIN (a, b)\<close> (here \<open>MIN_macro\<close>) is \<^verbatim>\<open>((a) < (b)) ? (a) : (b)\<close>, \<^verbatim>\<open>SQR (x)\<close> is \<^verbatim>\<open>(x) * (x)\<close>.\<close>

definition MIN_macro :: "'a::linorder \<Rightarrow> 'a \<Rightarrow> 'a" where
  "MIN_macro a b = (if a < b then a else b)"

definition SQR :: "real \<Rightarrow> real" where
  "SQR x = x * x"

subsection \<open>Angle arithmetic\<close>

definition angle_mod_2PI :: "real \<Rightarrow> real" where
  "angle_mod_2PI angle =
     (if angle < 0 then angle + 2 * pi
      else if angle > 2 * pi then angle - 2 * pi
      else angle)"

text \<open>
  \<^verbatim>\<open>atan2\<close> is the C library's four-quadrant arctangent, not code of this file. It is
  embedded by its mathematical definition: the angle in \<open>(-\<pi>, \<pi>]\<close> of the vector
  \<open>(x, y)\<close>, and \<open>0\<close> at the origin (lemmas \<open>atan2_range\<close> and \<open>atan2_polar\<close> below).
\<close>

definition atan2 :: "real \<Rightarrow> real \<Rightarrow> real" where
  "atan2 y x =
     (if 0 < x then arctan (y / x)
      else if x < 0 then (if 0 \<le> y then arctan (y / x) + pi else arctan (y / x) - pi)
      else if 0 < y then pi / 2
      else if y < 0 then - (pi / 2)
      else 0)"

definition arctg :: "real \<Rightarrow> real \<Rightarrow> real" where
  "arctg y x = (let temp = atan2 y x in if temp < 0 then temp + 2 * pi else temp)"

definition min_prox :: "real \<Rightarrow> real \<Rightarrow> real \<Rightarrow> real" where
  "min_prox alpha beta angle =
     (let temp1 = MIN_macro (angle_mod_2PI (alpha - angle))
                            (2 * pi - angle_mod_2PI (alpha - angle));
          temp2 = MIN_macro (angle_mod_2PI (beta - angle))
                            (2 * pi - angle_mod_2PI (beta - angle))
      in MIN_macro temp1 temp2)"

datatype DialTarget = DIAL_TARGET_ALPHA | DIAL_TARGET_BETA | DIAL_TARGET_BOTH

definition closest :: "real \<Rightarrow> real \<Rightarrow> real \<Rightarrow> DialTarget" where
  "closest alpha beta angle =
     (let temp_alpha = MIN_macro (angle_mod_2PI (alpha - angle))
                                 (2 * pi - angle_mod_2PI (alpha - angle));
          temp_beta = MIN_macro (angle_mod_2PI (beta - angle))
                                (2 * pi - angle_mod_2PI (beta - angle))
      in if temp_alpha - temp_beta < 0 then DIAL_TARGET_ALPHA else DIAL_TARGET_BETA)"

text \<open>
  The angular distance of the specification is not a function of the source: it is the
  expression that \<open>min_prox\<close> and \<open>closest\<close> both compute for each handle, the smaller of
  the forward and the backward separation. It is named here to state properties of it.
\<close>

definition angular_distance :: "real \<Rightarrow> real \<Rightarrow> real" where
  "angular_distance a b =
     MIN_macro (angle_mod_2PI (a - b)) (2 * pi - angle_mod_2PI (a - b))"

subsection \<open>The dial's state, the allocation and the events\<close>

text \<open>
  \<open>GimpDialPrivate\<close> is the private struct of the widget, without \<^verbatim>\<open>event_window\<close> (a
  handle of the windowing system that no handler below reads). Of \<^verbatim>\<open>GtkAllocation\<close> the
  handlers read only \<open>width\<close> and \<open>height\<close>. The events carry the fields the handlers read.
\<close>

record GimpDialPrivate =
  alpha :: real
  beta :: real
  clockwise :: bool
  target :: DialTarget
  press_angle :: real
  border_width :: int
  has_grab :: bool
  press_state :: nat

record GtkAllocation =
  width :: int
  height :: int

datatype GdkEventType =
  GDK_BUTTON_PRESS | GDK_2BUTTON_PRESS | GDK_3BUTTON_PRESS | GDK_BUTTON_RELEASE

record GdkEventButton =
  event_type :: GdkEventType
  event_x :: real
  event_y :: real
  event_state :: nat
  button :: nat

record GdkEventMotion =
  motion_x :: real
  motion_y :: real

subsection \<open>Properties\<close>

datatype property_id = PROP_0 | PROP_BORDER_WIDTH | PROP_ALPHA | PROP_BETA | PROP_CLOCKWISE

datatype GValue = G_VALUE_INT int | G_VALUE_DOUBLE real | G_VALUE_BOOLEAN bool

text \<open>GLib's getters return \<open>0\<close> (or \<^verbatim>\<open>FALSE\<close>) for a value of another type.\<close>

fun g_value_get_int :: "GValue \<Rightarrow> int" where
  "g_value_get_int (G_VALUE_INT i) = i"
| "g_value_get_int _ = 0"

fun g_value_get_double :: "GValue \<Rightarrow> real" where
  "g_value_get_double (G_VALUE_DOUBLE v) = v"
| "g_value_get_double _ = 0"

fun g_value_get_boolean :: "GValue \<Rightarrow> bool" where
  "g_value_get_boolean (G_VALUE_BOOLEAN b) = b"
| "g_value_get_boolean _ = False"

text \<open>
  The redraw and resize requests of the setter are effects on the toolkit, not on the
  dial's state. An unknown property id only logs a warning.
\<close>

fun gimp_dial_set_property :: "GimpDialPrivate \<Rightarrow> property_id \<Rightarrow> GValue \<Rightarrow> GimpDialPrivate" where
  "gimp_dial_set_property dial PROP_BORDER_WIDTH v = dial\<lparr>border_width := g_value_get_int v\<rparr>"
| "gimp_dial_set_property dial PROP_ALPHA v = dial\<lparr>alpha := g_value_get_double v\<rparr>"
| "gimp_dial_set_property dial PROP_BETA v = dial\<lparr>beta := g_value_get_double v\<rparr>"
| "gimp_dial_set_property dial PROP_CLOCKWISE v = dial\<lparr>clockwise := g_value_get_boolean v\<rparr>"
| "gimp_dial_set_property dial PROP_0 v = dial"

text \<open>
  \<^verbatim>\<open>g_object_set (dial, "alpha", v, NULL)\<close> reaches \<open>gimp_dial_set_property\<close> with the id
  under which \<^verbatim>\<open>gimp_dial_class_init\<close> installed the property. The object system checks
  \<open>v\<close> against the declared range of the property (\<open>0\<close> to \<open>2\<pi>\<close>, both included) before
  it calls the setter; that check is not part of this file. In exact arithmetic the press
  angle lies in the declared range, and this setter stores it unchecked; the check is
  embedded with the IEEE arithmetic below.
\<close>

definition g_object_set_double :: "GimpDialPrivate \<Rightarrow> property_id \<Rightarrow> real \<Rightarrow> GimpDialPrivate" where
  "g_object_set_double dial pid v = gimp_dial_set_property dial pid (G_VALUE_DOUBLE v)"

subsection \<open>The pointer handlers\<close>

text \<open>
  The first argument stands for \<^verbatim>\<open>gdk_event_triggers_context_menu\<close>, a function of the
  windowing library. Taking and releasing the pointer grab is recorded in \<open>has_grab\<close>.
\<close>

definition gimp_dial_button_press_event ::
  "(GdkEventButton \<Rightarrow> bool) \<Rightarrow> GtkAllocation \<Rightarrow> GimpDialPrivate \<Rightarrow> GdkEventButton
     \<Rightarrow> GimpDialPrivate" where
  "gimp_dial_button_press_event gdk_event_triggers_context_menu allocation dial bevent =
     (if event_type bevent = GDK_BUTTON_PRESS then
        if gdk_event_triggers_context_menu bevent then dial\<lparr>press_state := 0\<rparr>
        else if button bevent = 1 then
          (let size = MIN_macro (width allocation) (height allocation) - 2 * border_width dial;
               center_x = real_of_int (width allocation) / 2;
               center_y = real_of_int (height allocation) / 2;
               dial1 = dial\<lparr>has_grab := True, press_state := event_state bevent\<rparr>;
               press_angle' = angle_mod_2PI (arctg (center_y - event_y bevent)
                                                   (event_x bevent - center_x));
               dial2 = dial1\<lparr>press_angle := press_angle'\<rparr>
           in if sqrt (SQR (event_y bevent - center_y) + SQR (event_x bevent - center_x))
                   > real_of_int size / 2 * EACH_OR_BOTH
                 \<and> min_prox (alpha dial2) (beta dial2) press_angle' < pi / 12
              then
                (let dial3 = dial2\<lparr>target := closest (alpha dial2) (beta dial2) press_angle'\<rparr>
                 in if target dial3 = DIAL_TARGET_ALPHA
                    then g_object_set_double dial3 PROP_ALPHA press_angle'
                    else g_object_set_double dial3 PROP_BETA press_angle')
              else dial2\<lparr>target := DIAL_TARGET_BOTH\<rparr>)
        else dial
      else dial)"

definition gimp_dial_button_release_event :: "GimpDialPrivate \<Rightarrow> GdkEventButton \<Rightarrow> GimpDialPrivate" where
  "gimp_dial_button_release_event dial bevent =
     (if button bevent = 1 then dial\<lparr>has_grab := False\<rparr> else dial)"

subsection \<open>The background pass\<close>

text \<open>
  The colour function writes three bytes, \<^verbatim>\<open>guchar rgb[3]\<close>, returned here as a triple.
  Their conversion from hue, saturation and value is \<^verbatim>\<open>gimp_hsv_to_rgb4\<close> of the colour
  library, not code of this file: it is a parameter of \<open>gimp_dial_background_func_hsv\<close>.

  The image surface is embedded as a partial map from byte offsets into the surface's data
  to pixels (red, green, blue, opacity). \<open>stride\<close> is the number of bytes of one row, as
  \<^verbatim>\<open>cairo_image_surface_get_stride\<close> returns it. The surface is new, no pixel written, when
  the pass begins. Painting the surface through the circular clip is an effect on the
  drawing context and not part of the embedding.
\<close>

type_synonym guchar = "8 word"

type_synonym GimpDialBGFunc = "real \<Rightarrow> real \<Rightarrow> guchar \<times> guchar \<times> guchar"

type_synonym surface_data = "int \<rightharpoonup> guchar \<times> guchar \<times> guchar \<times> guchar"

text \<open>
  Modelled from the spec: \<^verbatim>\<open>GIMP_CAIRO_ARGB32_SET_PIXEL (d, r, g, b, a)\<close>, a macro of the
  colour library that is not among the sources. The pass "writes opaque pixels" through
  it: the pixel at the offset \<open>d\<close> becomes the colour \<open>r\<close>, \<open>g\<close>, \<open>b\<close> with the opacity \<open>a\<close>.
\<close>

definition GIMP_CAIRO_ARGB32_SET_PIXEL ::
  "surface_data \<Rightarrow> int \<Rightarrow> guchar \<Rightarrow> guchar \<Rightarrow> guchar \<Rightarrow> guchar \<Rightarrow> surface_data" where
  "GIMP_CAIRO_ARGB32_SET_PIXEL data d r g b a = data(d \<mapsto> (r, g, b, a))"

definition gimp_dial_background_func_hsv ::
  "(real \<Rightarrow> real \<Rightarrow> real \<Rightarrow> guchar \<times> guchar \<times> guchar) \<Rightarrow> GimpDialBGFunc" where
  "gimp_dial_background_func_hsv gimp_hsv_to_rgb4 angle distance =
     (let v = 1 - sqrt distance / 4 in gimp_hsv_to_rgb4 angle distance v)"

text \<open>
  The body of the inner loop, for column \<open>i\<close> of row \<open>j\<close>; \<open>size'\<close> is the parameter
  \<^verbatim>\<open>size\<close> of the source.
\<close>

definition draw_background_pixel ::
  "GimpDialBGFunc \<Rightarrow> int \<Rightarrow> int \<Rightarrow> int \<Rightarrow> int \<Rightarrow> surface_data \<Rightarrow> surface_data" where
  "draw_background_pixel bg_func size' stride j i data =
     (let distance = sqrt ((SQR (real_of_int i - real_of_int size' / 2)
                            + SQR (real_of_int j - real_of_int size' / 2))
                           / SQR (real_of_int size' / 2));
          angle = arctg (real_of_int size' / 2 - real_of_int j)
                        (real_of_int i - real_of_int size' / 2) / (2 * pi);
          (r, g, b) = bg_func angle (MIN_macro 1 distance)
      in GIMP_CAIRO_ARGB32_SET_PIXEL data (j * stride + i * 4) r g b 255)"

text \<open>
  The inner loop over the columns of row \<open>j\<close> and the outer loop over the rows, each from
  its counter up to \<open>size'\<close>.
\<close>

function draw_background_row ::
  "GimpDialBGFunc \<Rightarrow> int \<Rightarrow> int \<Rightarrow> int \<Rightarrow> int \<Rightarrow> surface_data \<Rightarrow> surface_data" where
  "draw_background_row bg_func size' stride j i data =
     (if i < size'
      then draw_background_row bg_func size' stride j (i + 1)
             (draw_background_pixel bg_func size' stride j i data)
      else data)"
  by pat_completeness auto
termination
  by (relation "measure (\<lambda>(bg_func, size', stride, j, i, data). nat (size' - i))") auto

function draw_background_rows ::
  "GimpDialBGFunc \<Rightarrow> int \<Rightarrow> int \<Rightarrow> int \<Rightarrow> surface_data \<Rightarrow> surface_data" where
  "draw_background_rows bg_func size' stride j data =
     (if j < size'
      then draw_background_rows bg_func size' stride (j + 1)
             (draw_background_row bg_func size' stride j 0 data)
      else data)"
  by pat_completeness auto
termination
  by (relation "measure (\<lambda>(bg_func, size', stride, j, data). nat (size' - j))") auto

definition gimp_dial_draw_background :: "int \<Rightarrow> GimpDialBGFunc \<Rightarrow> int \<Rightarrow> surface_data" where
  "gimp_dial_draw_background size' bg_func stride =
     draw_background_rows bg_func size' stride 0 Map.empty"

declare draw_background_row.simps [simp del] draw_background_rows.simps [simp del]

text \<open>The pixel that the body of the loop stores for column \<open>i\<close> of row \<open>j\<close>.\<close>

definition background_pixel ::
  "GimpDialBGFunc \<Rightarrow> int \<Rightarrow> int \<Rightarrow> int \<Rightarrow> guchar \<times> guchar \<times> guchar \<times> guchar" where
  "background_pixel bg_func size' i j =
     (let distance = sqrt ((SQR (real_of_int i - real_of_int size' / 2)
                            + SQR (real_of_int j - real_of_int size' / 2))
                           / SQR (real_of_int size' / 2));
          angle = arctg (real_of_int size' / 2 - real_of_int j)
                        (real_of_int i - real_of_int size' / 2) / (2 * pi);
          (r, g, b) = bg_func angle (MIN_macro 1 distance)
      in (r, g, b, 255))"

subsection \<open>Vocabulary of the statements\<close>

text \<open>
  The radius of the dial, and the angle and the distance from the centre of a pointer
  position, as both handlers compute them from the allocation and the border width.
\<close>

definition dial_size :: "GtkAllocation \<Rightarrow> GimpDialPrivate \<Rightarrow> int" where
  "dial_size allocation dial =
     MIN_macro (width allocation) (height allocation) - 2 * border_width dial"

definition dial_radius :: "GtkAllocation \<Rightarrow> GimpDialPrivate \<Rightarrow> real" where
  "dial_radius allocation dial = real_of_int (dial_size allocation dial) / 2"

definition pointer_angle :: "GtkAllocation \<Rightarrow> real \<Rightarrow> real \<Rightarrow> real" where
  "pointer_angle allocation px py =
     angle_mod_2PI (arctg (real_of_int (height allocation) / 2 - py)
                          (px - real_of_int (width allocation) / 2))"

definition pointer_distance :: "GtkAllocation \<Rightarrow> real \<Rightarrow> real \<Rightarrow> real" where
  "pointer_distance allocation px py =
     sqrt (SQR (py - real_of_int (height allocation) / 2)
           + SQR (px - real_of_int (width allocation) / 2))"

definition primary_press :: "(GdkEventButton \<Rightarrow> bool) \<Rightarrow> GdkEventButton \<Rightarrow> bool" where
  "primary_press gdk_event_triggers_context_menu bevent =
     (event_type bevent = GDK_BUTTON_PRESS
      \<and> \<not> gdk_event_triggers_context_menu bevent \<and> button bevent = 1)"

text \<open>
  The state of a new dial: the construct-time defaults of the four properties installed by
  \<^verbatim>\<open>gimp_dial_class_init\<close>, every other field zero, as the object system allocates it
  (\<open>DIAL_TARGET_ALPHA\<close> is the enumeration's zero).
\<close>

definition gimp_dial_new :: GimpDialPrivate where
  "gimp_dial_new =
     \<lparr>alpha = 0, beta = pi, clockwise = False, target = DIAL_TARGET_ALPHA, press_angle = 0,
      border_width = 0, has_grab = False, press_state = 0\<rparr>"

text \<open>Concrete events for the examples: a plain press and a motion at a position.\<close>

definition press_at :: "real \<Rightarrow> real \<Rightarrow> GdkEventButton" where
  "press_at px py =
     \<lparr>event_type = GDK_BUTTON_PRESS, event_x = px, event_y = py, event_state = 0, button = 1\<rparr>"

definition motion_at :: "real \<Rightarrow> real \<Rightarrow> GdkEventMotion" where
  "motion_at px py = \<lparr>motion_x = px, motion_y = py\<rparr>"

definition no_context_menu :: "GdkEventButton \<Rightarrow> bool" where
  "no_context_menu bevent = False"

definition square_allocation :: "int \<Rightarrow> GtkAllocation" where
  "square_allocation n = \<lparr>width = n, height = n\<rparr>"

section \<open>The code in IEEE arithmetic\<close>

text \<open>
  Where a statement turns on the last bits of a result (whether the end \<open>2\<pi>\<close> of the range
  is reached, what the narrowing to \<^verbatim>\<open>gfloat\<close> stores), exact arithmetic is not the code.
  The definitions of this section embed the same functions with every floating-point
  operation rounded as the machine rounds it: a \<^verbatim>\<open>gdouble\<close> operation returns the exact
  result rounded to 53 significant bits, a value stored in a \<^verbatim>\<open>gfloat\<close> is rounded to 24
  bits, both to the nearest value, a tie to the even one. The exponent is not bounded: no
  overflow, no subnormal numbers, no NaN. The concrete inputs of the examples below
  produce only zero and magnitudes between \<open>2 powi (- 94)\<close> and \<open>2 powi 12\<close>, where rounding
  with a bounded exponent is the same.
\<close>

subsection \<open>Rounding\<close>

text \<open>\<open>rne\<close> rounds a real number to the nearest integer, a tie to the even one.\<close>

definition rne :: "real \<Rightarrow> int" where
  "rne z =
     (let f = \<lfloor>z\<rfloor>
      in if z - of_int f < 1 / 2 then f
         else if 1 / 2 < z - of_int f then f + 1
         else if even f then f else f + 1)"

text \<open>
  \<open>exponent x\<close> is the binary exponent of \<open>x \<noteq> 0\<close>: \<open>2 powi exponent x \<le> \<bar>x\<bar> < 2 powi (exponent x + 1)\<close>.
  \<open>round_to p x\<close> rounds \<open>x\<close> to \<open>p\<close> significant bits, that is to the nearest multiple of
  \<open>2 powi (exponent x - p + 1)\<close>.
\<close>

definition exponent :: "real \<Rightarrow> int" where
  "exponent x = \<lfloor>log 2 \<bar>x\<bar>\<rfloor>"

definition round_to :: "nat \<Rightarrow> real \<Rightarrow> real" where
  "round_to p x =
     (if x = 0 then 0
      else (let u = 2 powi (exponent x - int p + 1)
            in of_int (rne (x / u)) * u))"

definition binary64 :: "real \<Rightarrow> real" where
  "binary64 = round_to 53"

definition binary32 :: "real \<Rightarrow> real" where
  "binary32 = round_to 24"

text \<open>The numbers with at most \<open>p\<close> significant bits.\<close>

definition representable :: "nat \<Rightarrow> real \<Rightarrow> bool" where
  "representable p b = (\<exists>m k. b = of_int m * 2 powi k \<and> \<bar>m\<bar> \<le> 2 ^ p)"

text \<open>
  \<^verbatim>\<open>G_PI\<close> is a decimal constant of GLib with more digits of \<open>\<pi>\<close> than a \<^verbatim>\<open>gdouble\<close> holds;
  the compiler reads it as the \<^verbatim>\<open>gdouble\<close> nearest to \<open>\<pi>\<close>. \<open>EACH_OR_BOTH\<close> is the
  \<^verbatim>\<open>gdouble\<close> nearest to \<open>0.3\<close>.
\<close>

definition G_PI :: real where
  "G_PI = binary64 pi"

definition EACH_OR_BOTH_ieee :: real where
  "EACH_OR_BOTH_ieee = binary64 0.3"

definition SQR_ieee :: "real \<Rightarrow> real" where
  "SQR_ieee x = binary64 (x * x)"

subsection \<open>Angle arithmetic\<close>

text \<open>
  The C library's \<^verbatim>\<open>atan2\<close> returns a \<^verbatim>\<open>gdouble\<close>: it is embedded as the mathematical
  value, rounded.
\<close>

definition atan2_ieee :: "real \<Rightarrow> real \<Rightarrow> real" where
  "atan2_ieee y x = binary64 (atan2 y x)"

definition angle_mod_2PI_ieee :: "real \<Rightarrow> real" where
  "angle_mod_2PI_ieee angle =
     (if angle < 0 then binary64 (angle + binary64 (2 * G_PI))
      else if angle > binary64 (2 * G_PI) then binary64 (angle - binary64 (2 * G_PI))
      else angle)"

definition arctg_ieee :: "real \<Rightarrow> real \<Rightarrow> real" where
  "arctg_ieee y x =
     (let temp = atan2_ieee y x
      in if temp < 0 then binary64 (temp + binary64 (2 * G_PI)) else temp)"

definition min_prox_ieee :: "real \<Rightarrow> real \<Rightarrow> real \<Rightarrow> real" where
  "min_prox_ieee a b angle =
     (let temp1 = MIN_macro (angle_mod_2PI_ieee (binary64 (a - angle)))
                            (binary64 (binary64 (2 * G_PI)
                                       - angle_mod_2PI_ieee (binary64 (a - angle))));
          temp2 = MIN_macro (angle_mod_2PI_ieee (binary64 (b - angle)))
                            (binary64 (binary64 (2 * G_PI)
                                       - angle_mod_2PI_ieee (binary64 (b - angle))))
      in MIN_macro temp1 temp2)"

definition closest_ieee :: "real \<Rightarrow> real \<Rightarrow> real \<Rightarrow> DialTarget" where
  "closest_ieee a b angle =
     (let temp_alpha = MIN_macro (angle_mod_2PI_ieee (binary64 (a - angle)))
                                 (binary64 (binary64 (2 * G_PI)
                                            - angle_mod_2PI_ieee (binary64 (a - angle))));
          temp_beta = MIN_macro (angle_mod_2PI_ieee (binary64 (b - angle)))
                                (binary64 (binary64 (2 * G_PI)
                                           - angle_mod_2PI_ieee (binary64 (b - angle))))
      in if binary64 (temp_alpha - temp_beta) < 0 then DIAL_TARGET_ALPHA
         else DIAL_TARGET_BETA)"

text \<open>The expression that \<open>min_prox_ieee\<close> and \<open>closest_ieee\<close> compute for one handle.\<close>

definition angular_distance_ieee :: "real \<Rightarrow> real \<Rightarrow> real" where
  "angular_distance_ieee a b =
     MIN_macro (angle_mod_2PI_ieee (binary64 (a - b)))
               (binary64 (binary64 (2 * G_PI) - angle_mod_2PI_ieee (binary64 (a - b))))"

subsection \<open>Setting a property\<close>

text \<open>
  Modelled from the spec: the check of the object system between \<^verbatim>\<open>g_object_set\<close> and
  \<open>gimp_dial_set_property\<close>, which is not among the sources. The spec has "property bounds
  enforced by the property system" and the range \<open>0\<close> to \<open>2\<pi>\<close> of \<open>alpha\<close> and \<open>beta\<close>;
  \<^verbatim>\<open>gimp_dial_class_init\<close> declares both with the minimum \<^verbatim>\<open>0.0\<close> and the maximum
  \<^verbatim>\<open>2 * G_PI\<close>. A value outside the declared range is refused with a warning and the
  property keeps its value.
\<close>

definition g_object_set_double_ieee ::
  "GimpDialPrivate \<Rightarrow> property_id \<Rightarrow> real \<Rightarrow> GimpDialPrivate" where
  "g_object_set_double_ieee dial pid v =
     (if 0 \<le> v \<and> v \<le> binary64 (2 * G_PI)
      then gimp_dial_set_property dial pid (G_VALUE_DOUBLE v)
      else dial)"

subsection \<open>The pointer handlers\<close>

definition gimp_dial_button_press_event_ieee ::
  "(GdkEventButton \<Rightarrow> bool) \<Rightarrow> GtkAllocation \<Rightarrow> GimpDialPrivate \<Rightarrow> GdkEventButton
     \<Rightarrow> GimpDialPrivate" where
  "gimp_dial_button_press_event_ieee gdk_event_triggers_context_menu allocation dial bevent =
     (if event_type bevent = GDK_BUTTON_PRESS then
        if gdk_event_triggers_context_menu bevent then dial\<lparr>press_state := 0\<rparr>
        else if button bevent = 1 then
          (let size = MIN_macro (width allocation) (height allocation) - 2 * border_width dial;
               center_x = binary64 (real_of_int (width allocation) / 2);
               center_y = binary64 (real_of_int (height allocation) / 2);
               dial1 = dial\<lparr>has_grab := True, press_state := event_state bevent\<rparr>;
               press_angle' = angle_mod_2PI_ieee
                                (arctg_ieee (binary64 (center_y - event_y bevent))
                                            (binary64 (event_x bevent - center_x)));
               dial2 = dial1\<lparr>press_angle := press_angle'\<rparr>
           in if binary64 (sqrt (binary64 (SQR_ieee (binary64 (event_y bevent - center_y))
                                           + SQR_ieee (binary64 (event_x bevent - center_x)))))
                   > binary64 (binary64 (real_of_int size / 2) * EACH_OR_BOTH_ieee)
                 \<and> min_prox_ieee (alpha dial2) (beta dial2) press_angle' < binary64 (G_PI / 12)
              then
                (let dial3 = dial2\<lparr>target := closest_ieee (alpha dial2) (beta dial2) press_angle'\<rparr>
                 in if target dial3 = DIAL_TARGET_ALPHA
                    then g_object_set_double_ieee dial3 PROP_ALPHA press_angle'
                    else g_object_set_double_ieee dial3 PROP_BETA press_angle')
              else dial2\<lparr>target := DIAL_TARGET_BOTH\<rparr>)
        else dial
      else dial)"

text \<open>
  \<^verbatim>\<open>motion_angle\<close> and \<^verbatim>\<open>delta\<close> are \<^verbatim>\<open>gfloat\<close>: each is rounded to 24 bits when it is
  stored. The difference \<^verbatim>\<open>motion_angle - press_angle\<close> and the sums with \<^verbatim>\<open>delta\<close> are
  \<^verbatim>\<open>gdouble\<close> operations. In the branch for both handles the two new angles are arguments
  of one call: both are computed from the state before the call, and each is checked
  against the range of its property.
\<close>

definition gimp_dial_motion_notify_event_ieee ::
  "GtkAllocation \<Rightarrow> GimpDialPrivate \<Rightarrow> GdkEventMotion \<Rightarrow> GimpDialPrivate" where
  "gimp_dial_motion_notify_event_ieee allocation dial mevent =
     (let center_x = binary64 (real_of_int (width allocation) / 2);
          center_y = binary64 (real_of_int (height allocation) / 2);
          motion_angle = binary32 (angle_mod_2PI_ieee
                                     (arctg_ieee (binary64 (center_y - motion_y mevent))
                                                 (binary64 (motion_x mevent - center_x))));
          delta = binary32 (binary64 (motion_angle - press_angle dial));
          dial1 = dial\<lparr>press_angle := motion_angle\<rparr>
      in if delta \<noteq> 0 then
           if target dial1 = DIAL_TARGET_ALPHA then
             g_object_set_double_ieee dial1 PROP_ALPHA motion_angle
           else if target dial1 = DIAL_TARGET_BETA then
             g_object_set_double_ieee dial1 PROP_BETA motion_angle
           else
             (let new_alpha = angle_mod_2PI_ieee (binary64 (alpha dial1 + delta));
                  new_beta = angle_mod_2PI_ieee (binary64 (beta dial1 + delta))
              in g_object_set_double_ieee (g_object_set_double_ieee dial1 PROP_ALPHA new_alpha)
                   PROP_BETA new_beta)
         else dial1)"

subsection \<open>Vocabulary of the statements\<close>

text \<open>
  The angle of a pointer position as both handlers compute it, the \<^verbatim>\<open>gfloat\<close> angle and
  the \<^verbatim>\<open>gfloat\<close> \<open>delta\<close> of the motion handler, and the range of the two properties.
\<close>

definition pointer_angle_ieee :: "GtkAllocation \<Rightarrow> real \<Rightarrow> real \<Rightarrow> real" where
  "pointer_angle_ieee allocation px py =
     angle_mod_2PI_ieee
       (arctg_ieee (binary64 (binary64 (real_of_int (height allocation) / 2) - py))
                   (binary64 (px - binary64 (real_of_int (width allocation) / 2))))"

definition motion_angle_ieee :: "GtkAllocation \<Rightarrow> GdkEventMotion \<Rightarrow> real" where
  "motion_angle_ieee allocation mevent =
     binary32 (pointer_angle_ieee allocation (motion_x mevent) (motion_y mevent))"

definition motion_delta_ieee :: "GtkAllocation \<Rightarrow> GimpDialPrivate \<Rightarrow> GdkEventMotion \<Rightarrow> real" where
  "motion_delta_ieee allocation dial mevent =
     binary32 (binary64 (motion_angle_ieee allocation mevent - press_angle dial))"

definition angles_in_range :: "GimpDialPrivate \<Rightarrow> bool" where
  "angles_in_range dial =
     (0 \<le> alpha dial \<and> alpha dial \<le> 2 * G_PI \<and> 0 \<le> beta dial \<and> beta dial \<le> 2 * G_PI)"

text \<open>
  The distance on a circle of circumference \<open>2 * G_PI\<close>, in exact arithmetic, of two angles
  that differ by \<open>v\<close>: the quantity that \<open>angular_distance_ieee\<close> computes with rounding.
\<close>

definition circle_distance :: "real \<Rightarrow> real" where
  "circle_distance v = min \<bar>v\<bar> (2 * G_PI - \<bar>v\<bar>)"

text \<open>
  States for the examples: a new dial, whose second handle is at the default \<^verbatim>\<open>G_PI\<close>, and
  a dial whose last press targeted both handles.
\<close>

definition gimp_dial_new_ieee :: GimpDialPrivate where
  "gimp_dial_new_ieee =
     \<lparr>alpha = 0, beta = G_PI, clockwise = False, target = DIAL_TARGET_ALPHA, press_angle = 0,
      border_width = 0, has_grab = False, press_state = 0\<rparr>"

definition dial_both :: "real \<Rightarrow> real \<Rightarrow> real \<Rightarrow> GimpDialPrivate" where
  "dial_both a b p =
     gimp_dial_new_ieee\<lparr>alpha := a, beta := b, press_angle := p, target := DIAL_TARGET_BOTH\<rparr>"

section \<open>Lemmas\<close>

subsection \<open>Properties of the angle arithmetic\<close>

lemma MIN_macro_eq_min: "MIN_macro a b = min a b"
  by (auto simp: MIN_macro_def min_def)

lemma atan2_range: "- pi < atan2 y x \<and> atan2 y x \<le> pi"
proof -
  have "- (pi / 2) < arctan (y / x)" "arctan (y / x) < pi / 2"
    by (rule arctan_lbound, rule arctan_ubound)
  moreover have "0 \<le> y \<Longrightarrow> x < 0 \<Longrightarrow> arctan (y / x) \<le> 0"
    by (simp add: divide_nonneg_neg)
  moreover have "y < 0 \<Longrightarrow> x < 0 \<Longrightarrow> 0 < arctan (y / x)"
    by (simp add: divide_neg_neg)
  ultimately show ?thesis
    using pi_gt_zero by (auto simp: atan2_def)
qed

lemma sqrt_polar_aux:
  assumes "x \<noteq> (0::real)"
  shows "sqrt (x\<^sup>2 + y\<^sup>2) = \<bar>x\<bar> * sqrt (1 + (y / x)\<^sup>2)"
proof -
  have "x\<^sup>2 + y\<^sup>2 = x\<^sup>2 * (1 + (y / x)\<^sup>2)"
    using assms by (simp add: field_simps power2_eq_square)
  then show ?thesis
    by (simp add: real_sqrt_mult)
qed

lemma atan2_polar:
  assumes "x \<noteq> 0 \<or> y \<noteq> 0"
  shows "sqrt (x\<^sup>2 + y\<^sup>2) * cos (atan2 y x) = x"
    and "sqrt (x\<^sup>2 + y\<^sup>2) * sin (atan2 y x) = y"
proof -
  let ?t = "y / x"
  have pos: "0 < sqrt (1 + ?t\<^sup>2)"
    by (simp add: add_pos_nonneg)
  have c: "x \<noteq> 0 \<Longrightarrow> sqrt (x\<^sup>2 + y\<^sup>2) * cos (arctan ?t) = \<bar>x\<bar>"
    using pos by (simp add: sqrt_polar_aux cos_arctan)
  have s: "x \<noteq> 0 \<Longrightarrow> sqrt (x\<^sup>2 + y\<^sup>2) * sin (arctan ?t) = \<bar>x\<bar> * ?t"
    using pos by (simp add: sqrt_polar_aux sin_arctan)
  show "sqrt (x\<^sup>2 + y\<^sup>2) * cos (atan2 y x) = x"
    using assms c by (auto simp: atan2_def)
  show "sqrt (x\<^sup>2 + y\<^sup>2) * sin (atan2 y x) = y"
    using assms s by (auto simp: atan2_def)
qed

lemma min_prox_eq: "min_prox a b t =
    MIN_macro (angular_distance a t) (angular_distance b t)"
  by (simp add: min_prox_def angular_distance_def Let_def)

lemma closest_eq: "closest a b t =
    (if angular_distance a t < angular_distance b t
     then DIAL_TARGET_ALPHA else DIAL_TARGET_BETA)"
  by (simp add: closest_def angular_distance_def Let_def)

lemma angular_distance_sym:
  assumes "\<bar>a - b\<bar> \<le> 2 * pi"
  shows "angular_distance a b = angular_distance b a"
  using assms pi_gt_zero
  by (auto simp: angular_distance_def angle_mod_2PI_def MIN_macro_def)

lemma angular_distance_range:
  assumes "\<bar>a - b\<bar> \<le> 2 * pi"
  shows "0 \<le> angular_distance a b \<and> angular_distance a b \<le> pi"
  using assms pi_gt_zero
  by (auto simp: angular_distance_def angle_mod_2PI_def MIN_macro_def)

lemma angular_distance_self: "angular_distance a a = 0"
  using pi_gt_zero by (simp add: angular_distance_def angle_mod_2PI_def MIN_macro_def)

subsection \<open>The handlers, unfolded\<close>

lemma press_primary_unfold:
  assumes "primary_press ctx bevent"
  shows "gimp_dial_button_press_event ctx allocation dial bevent =
    (let pa = pointer_angle allocation (event_x bevent) (event_y bevent);
         dial2 = dial\<lparr>has_grab := True, press_state := event_state bevent, press_angle := pa\<rparr>
     in if pointer_distance allocation (event_x bevent) (event_y bevent)
             > dial_radius allocation dial * EACH_OR_BOTH
           \<and> min_prox (alpha dial) (beta dial) pa < pi / 12
        then (if closest (alpha dial) (beta dial) pa = DIAL_TARGET_ALPHA
              then dial2\<lparr>target := DIAL_TARGET_ALPHA, alpha := pa\<rparr>
              else dial2\<lparr>target := closest (alpha dial) (beta dial) pa, beta := pa\<rparr>)
        else dial2\<lparr>target := DIAL_TARGET_BOTH\<rparr>)"
  using assms
  by (simp add: primary_press_def gimp_dial_button_press_event_def Let_def pointer_angle_def
      pointer_distance_def dial_radius_def dial_size_def g_object_set_double_def)

lemma arctg_east: "0 < x \<Longrightarrow> arctg 0 x = 0"
  by (simp add: arctg_def atan2_def)

lemma arctg_north: "0 < y \<Longrightarrow> arctg y 0 = pi / 2"
  by (simp add: arctg_def atan2_def)

lemma arctg_origin: "arctg 0 0 = 0"
  by (simp add: arctg_def atan2_def)

lemma pointer_distance_horizontal:
  "pointer_distance allocation px (real_of_int (height allocation) / 2)
     = \<bar>px - real_of_int (width allocation) / 2\<bar>"
  by (simp add: pointer_distance_def SQR_def)

lemma pointer_distance_zero_iff:
  "pointer_distance allocation px py = 0
     \<longleftrightarrow> px = real_of_int (width allocation) / 2 \<and> py = real_of_int (height allocation) / 2"
proof -
  have "pointer_distance allocation px py
      = sqrt ((py - real_of_int (height allocation) / 2)\<^sup>2 + (px - real_of_int (width allocation) / 2)\<^sup>2)"
    by (simp add: pointer_distance_def SQR_def power2_eq_square)
  then show ?thesis
    by (auto simp: real_sqrt_eq_zero_cancel_iff sum_power2_eq_zero_iff)
qed

lemma primary_press_at [simp]: "primary_press no_context_menu (press_at px py)"
  by (simp add: primary_press_def no_context_menu_def press_at_def)

lemma press_at_sel [simp]: "event_x (press_at px py) = px" "event_y (press_at px py) = py"
  by (simp_all add: press_at_def)

lemma motion_at_sel [simp]: "motion_x (motion_at px py) = px" "motion_y (motion_at px py) = py"
  by (simp_all add: motion_at_def)

lemma square_allocation_sel [simp]:
  "width (square_allocation n) = n" "height (square_allocation n) = n"
  by (simp_all add: square_allocation_def)

lemma gimp_dial_new_sel [simp]:
  "alpha gimp_dial_new = 0" "beta gimp_dial_new = pi" "press_angle gimp_dial_new = 0"
  "border_width gimp_dial_new = 0" "target gimp_dial_new = DIAL_TARGET_ALPHA"
  by (simp_all add: gimp_dial_new_def)

subsection \<open>The loops of the background pass\<close>

lemma draw_background_pixel_eq:
  "draw_background_pixel bg_func size' stride j i data =
     data(j * stride + i * 4 \<mapsto> background_pixel bg_func size' i j)"
  by (simp add: draw_background_pixel_def background_pixel_def GIMP_CAIRO_ARGB32_SET_PIXEL_def
      Let_def split: prod.split)

lemma draw_background_row_below:
  "k < j * stride + i * 4 \<Longrightarrow> draw_background_row bg_func size' stride j i data k = data k"
proof (induction bg_func size' stride j i data rule: draw_background_row.induct)
  case (1 bg_func size' stride j i data)
  show ?case
  proof (cases "i < size'")
    case True
    with 1 show ?thesis
      by (subst draw_background_row.simps) (simp add: draw_background_pixel_eq fun_upd_def)
  next
    case False
    then show ?thesis
      by (subst draw_background_row.simps) simp
  qed
qed

lemma draw_background_row_at:
  "i0 \<le> i \<Longrightarrow> i < size' \<Longrightarrow>
   draw_background_row bg_func size' stride j i0 data (j * stride + i * 4)
     = Some (background_pixel bg_func size' i j)"
proof (induction bg_func size' stride j i0 data rule: draw_background_row.induct)
  case (1 bg_func size' stride j i0 data)
  from 1(2,3) have lt: "i0 < size'" by simp
  show ?case
  proof (cases "i = i0")
    case True
    then show ?thesis
      using lt
      by (subst draw_background_row.simps)
        (simp add: draw_background_row_below draw_background_pixel_eq)
  next
    case False
    with 1(2) have "i0 + 1 \<le> i" by simp
    from 1(1) [OF lt this 1(3)] show ?thesis
      using lt by (subst draw_background_row.simps) (simp add: draw_background_pixel_eq fun_upd_def)
  qed
qed

lemma draw_background_rows_below:
  "0 \<le> stride \<Longrightarrow> k < j * stride \<Longrightarrow>
   draw_background_rows bg_func size' stride j data k = data k"
proof (induction bg_func size' stride j data rule: draw_background_rows.induct)
  case (1 bg_func size' stride j data)
  show ?case
  proof (cases "j < size'")
    case True
    have "k < (j + 1) * stride" using 1(2,3) by (simp add: algebra_simps)
    from 1(1) [OF True 1(2) this] show ?thesis
      using True 1(3)
      by (subst draw_background_rows.simps) (simp add: draw_background_row_below)
  next
    case False
    then show ?thesis
      by (subst draw_background_rows.simps) simp
  qed
qed

lemma draw_background_rows_at:
  "j0 \<le> j \<Longrightarrow> j < size' \<Longrightarrow> 0 \<le> i \<Longrightarrow> i < size' \<Longrightarrow> 4 * size' \<le> stride \<Longrightarrow>
   draw_background_rows bg_func size' stride j0 data (j * stride + i * 4)
     = Some (background_pixel bg_func size' i j)"
proof (induction bg_func size' stride j0 data rule: draw_background_rows.induct)
  case (1 bg_func size' stride j0 data)
  from 1(2,3) have lt: "j0 < size'" by simp
  from 1(4,5,6) have st: "0 \<le> stride" by simp
  show ?case
  proof (cases "j = j0")
    case True
    have "j0 * stride + i * 4 < (j0 + 1) * stride"
      using 1(5,6) by (simp add: algebra_simps)
    then show ?thesis
      using lt True 1(4,5)
      by (subst draw_background_rows.simps)
        (simp add: draw_background_rows_below [OF st] draw_background_row_at)
  next
    case False
    with 1(2) have "j0 + 1 \<le> j" by simp
    from 1(1) [OF lt this 1(3,4,5,6)] show ?thesis
      using lt by (subst draw_background_rows.simps) simp
  qed
qed

lemma background_distance:
  assumes "0 < size'"
  shows "sqrt ((SQR (real_of_int i - real_of_int size' / 2) + SQR (real_of_int j - real_of_int size' / 2))
               / SQR (real_of_int size' / 2))
       = sqrt ((real_of_int i - real_of_int size' / 2)\<^sup>2 + (real_of_int j - real_of_int size' / 2)\<^sup>2)
         / (real_of_int size' / 2)"
proof -
  have "sqrt (SQR (real_of_int size' / 2)) = \<bar>real_of_int size' / 2\<bar>"
    unfolding SQR_def by (rule real_sqrt_abs2)
  then have "sqrt (SQR (real_of_int size' / 2)) = real_of_int size' / 2"
    using assms by simp
  moreover have "SQR (real_of_int i - real_of_int size' / 2) + SQR (real_of_int j - real_of_int size' / 2)
      = (real_of_int i - real_of_int size' / 2)\<^sup>2 + (real_of_int j - real_of_int size' / 2)\<^sup>2"
    by (simp add: SQR_def power2_eq_square)
  ultimately show ?thesis
    by (simp only: real_sqrt_divide)
qed

subsection \<open>Rounding\<close>

lemma rne_le: "z \<le> of_int n \<Longrightarrow> rne z \<le> n"
  unfolding rne_def Let_def by (auto; linarith)

lemma rne_ge: "of_int n \<le> z \<Longrightarrow> n \<le> rne z"
  unfolding rne_def Let_def by (auto; linarith)

lemma rne_of_int: "rne (of_int n) = n"
  by (simp add: rne_def)

lemma rne_near:
  assumes "\<bar>z - of_int n\<bar> < 1 / 2"
  shows "rne z = n"
proof (cases "of_int n \<le> z")
  case True
  with assms have "\<lfloor>z\<rfloor> = n" by (intro floor_unique) auto
  with assms True show ?thesis by (simp add: rne_def)
next
  case False
  with assms have "\<lfloor>z\<rfloor> = n - 1" by (intro floor_unique) auto
  with assms False show ?thesis by (simp add: rne_def)
qed

lemma rne_error: "\<bar>of_int (rne z) - z\<bar> \<le> 1 / 2"
  unfolding rne_def Let_def by (auto; linarith)

lemma exponent_bounds:
  assumes "x \<noteq> 0"
  shows "2 powi exponent x \<le> \<bar>x\<bar>" and "\<bar>x\<bar> < 2 powi (exponent x + 1)"
proof -
  have pos: "0 < \<bar>x\<bar>" using assms by simp
  have "2 powr real_of_int (exponent x) \<le> \<bar>x\<bar> \<and> \<bar>x\<bar> < 2 powr (real_of_int (exponent x) + 1)"
    using floor_log_eq_powr_iff [OF pos, of 2 "exponent x"] by (simp add: exponent_def)
  moreover have "2 powr (real_of_int (exponent x) + 1) = 2 powr real_of_int (exponent x + 1)"
    by simp
  ultimately show "2 powi exponent x \<le> \<bar>x\<bar>" and "\<bar>x\<bar> < 2 powi (exponent x + 1)"
    by (simp_all only: powr_real_of_int' [of 2, simplified])
qed

lemma exponent_eqI:
  assumes "2 powi k \<le> \<bar>x\<bar>" and "\<bar>x\<bar> < 2 powi (k + 1)"
  shows "exponent x = k"
proof -
  have pos: "0 < \<bar>x\<bar>"
    using assms(1) zero_less_power_int [of "2::real" k] by linarith
  have "2 powr real_of_int k \<le> \<bar>x\<bar> \<and> \<bar>x\<bar> < 2 powr (real_of_int k + 1)"
    using assms powr_real_of_int' [of "2::real" k] powr_real_of_int' [of "2::real" "k + 1"]
    by simp
  then show ?thesis
    using floor_log_eq_powr_iff [OF pos, of 2 k] by (simp add: exponent_def)
qed

lemma powi_split: "(2::real) powi (i + j) = 2 powi i * 2 powi j"
  by (simp add: power_int_add)

lemma round_to_grid_le:
  assumes "x \<le> of_int n * 2 powi (exponent x - int p + 1)"
  shows "round_to p x \<le> of_int n * 2 powi (exponent x - int p + 1)"
proof (cases "x = 0")
  case True
  with assms show ?thesis by (simp add: round_to_def)
next
  case False
  let ?u = "(2::real) powi (exponent x - int p + 1)"
  from assms have "x / ?u \<le> of_int n"
    by (simp add: pos_divide_le_eq)
  then have "rne (x / ?u) \<le> n" by (rule rne_le)
  then have "of_int (rne (x / ?u)) * ?u \<le> of_int n * ?u"
    by (intro mult_right_mono) simp_all
  with False show ?thesis by (simp add: round_to_def Let_def)
qed

lemma round_to_grid_ge:
  assumes "of_int n * 2 powi (exponent x - int p + 1) \<le> x"
  shows "of_int n * 2 powi (exponent x - int p + 1) \<le> round_to p x"
proof (cases "x = 0")
  case True
  with assms show ?thesis by (simp add: round_to_def)
next
  case False
  let ?u = "(2::real) powi (exponent x - int p + 1)"
  from assms have "of_int n \<le> x / ?u"
    by (simp add: pos_le_divide_eq)
  then have "n \<le> rne (x / ?u)" by (rule rne_ge)
  then have "of_int n * ?u \<le> of_int (rne (x / ?u)) * ?u"
    by (intro mult_right_mono) simp_all
  with False show ?thesis by (simp add: round_to_def Let_def)
qed

lemma round_to_near:
  assumes "x \<noteq> 0" and "exponent x = e"
    and "\<bar>x / 2 powi (e - int p + 1) - of_int n\<bar> < 1 / 2"
  shows "round_to p x = of_int n * 2 powi (e - int p + 1)"
  using assms by (simp add: round_to_def Let_def rne_near)

lemma on_grid:
  fixes b :: real
  assumes b: "b = of_int m * 2 powi k" and m: "\<bar>m\<bar> \<le> 2 ^ p" and e: "2 powi e \<le> \<bar>b\<bar>"
    and p: "1 \<le> p"
  shows "\<exists>n. b = of_int n * 2 powi (e - int p + 1)"
proof -
  have "(2::real) powi e \<le> \<bar>of_int m\<bar> * 2 powi k"
    using e by (simp add: b abs_mult)
  also have "\<dots> \<le> 2 ^ p * 2 powi k"
  proof (intro mult_right_mono)
    have "real_of_int \<bar>m\<bar> \<le> real_of_int (2 ^ p)" using m by (simp only: of_int_le_iff)
    then show "\<bar>real_of_int m\<bar> \<le> 2 ^ p" by simp
  qed simp
  also have "\<dots> = 2 powi (int p + k)"
    using powi_split [of "int p" k] by simp
  finally have "(2::real) powi e \<le> 2 powi (int p + k)" .
  then have "e \<le> int p + k"
    using power_int_strict_increasing [of "int p + k" e "2::real"] by (cases "e \<le> int p + k") auto
  then consider "0 \<le> k - (e - int p + 1)" | "k = e - int p"
    by linarith
  then show ?thesis
  proof cases
    case 1
    define j where "j = nat (k - (e - int p + 1))"
    have k: "k = (e - int p + 1) + int j" using 1 by (simp add: j_def)
    have "b = of_int (m * 2 ^ j) * 2 powi (e - int p + 1)"
      using powi_split [of "e - int p + 1" "int j"] by (simp add: b k)
    then show ?thesis ..
  next
    case 2
    have "(2::real) powi e = 2 ^ p * 2 powi k"
      using powi_split [of "int p" k] by (simp add: 2)
    with \<open>2 powi e \<le> \<bar>of_int m\<bar> * 2 powi k\<close> have "(2::real) ^ p \<le> \<bar>of_int m\<bar>"
      by simp
    then have "real_of_int (2 ^ p) \<le> real_of_int \<bar>m\<bar>" by simp
    then have "2 ^ p \<le> \<bar>m\<bar>" by (simp only: of_int_le_iff)
    with m have am: "\<bar>m\<bar> = 2 ^ p" by simp
    obtain q where q: "p = Suc q" using p by (cases p) auto
    have "even \<bar>m\<bar>" by (simp add: am q)
    then have "even m" by simp
    then have "m = 2 * (m div 2)" by simp
    then have "real_of_int m = 2 * real_of_int (m div 2)"
      by (metis of_int_mult of_int_numeral)
    moreover have "(2::real) powi k * 2 = 2 powi (e - int p + 1)"
      using powi_split [of k 1] by (simp add: 2)
    ultimately have "b = of_int (m div 2) * 2 powi (e - int p + 1)"
      by (simp add: b mult.assoc mult.commute)
    then show ?thesis ..
  qed
qed

lemma binade_floor:
  assumes "1 \<le> p"
  shows "(2::real) powi e = of_int (2 ^ (p - 1)) * 2 powi (e - int p + 1)"
proof -
  have "int (p - 1) + (e - int p + 1) = e" using assms by simp
  then have "(2::real) powi e = 2 powi int (p - 1) * 2 powi (e - int p + 1)"
    using powi_split [of "int (p - 1)" "e - int p + 1"] by simp
  then show ?thesis
    by (simp only: power_int_of_nat of_int_power of_int_numeral)
qed

lemma round_to_le:
  assumes p: "1 \<le> p" and b: "representable p b" and xb: "x \<le> b"
  shows "round_to p x \<le> b"
proof -
  let ?e = "exponent x"
  let ?u = "(2::real) powi (?e - int p + 1)"
  from b obtain m k where m: "b = of_int m * 2 powi k" "\<bar>m\<bar> \<le> 2 ^ p"
    by (auto simp: representable_def)
  consider "x = 0" | "x \<noteq> 0" "2 powi ?e \<le> \<bar>b\<bar>" "x \<le> \<bar>b\<bar>"
    | "x < 0" "0 \<le> b" | "x < 0" "b < 0" "\<bar>b\<bar> < 2 powi ?e"
    using xb by (cases "x = 0"; cases "x < 0"; cases "0 \<le> b"; cases "2 powi ?e \<le> \<bar>b\<bar>")
      (use exponent_bounds(1) [of x] in auto)
  then show ?thesis
  proof cases
    case 1
    with xb show ?thesis by (simp add: round_to_def)
  next
    case 2
    from on_grid [OF m 2(2) p] obtain n where "b = of_int n * ?u" ..
    with round_to_grid_le [of x n p] xb show ?thesis by simp
  next
    case 3
    have "round_to p x \<le> of_int 0 * ?u"
      using 3(1) by (intro round_to_grid_le) simp
    with 3(2) show ?thesis by simp
  next
    case 4
    have "x \<le> - (2 powi ?e)"
      using exponent_bounds(1) [of x] 4(1) by simp
    then have "x \<le> of_int (- (2 ^ (p - 1))) * ?u"
      using binade_floor [OF p, of ?e] by simp
    then have "round_to p x \<le> of_int (- (2 ^ (p - 1))) * ?u"
      by (rule round_to_grid_le)
    then have "round_to p x \<le> - (2 powi ?e)"
      using binade_floor [OF p, of ?e] by simp
    with 4 show ?thesis by simp
  qed
qed

lemma round_to_ge:
  assumes p: "1 \<le> p" and b: "representable p b" and xb: "b \<le> x"
  shows "b \<le> round_to p x"
proof -
  let ?e = "exponent x"
  let ?u = "(2::real) powi (?e - int p + 1)"
  from b obtain m k where m: "b = of_int m * 2 powi k" "\<bar>m\<bar> \<le> 2 ^ p"
    by (auto simp: representable_def)
  consider "x = 0" | "x \<noteq> 0" "2 powi ?e \<le> \<bar>b\<bar>"
    | "0 < x" "b \<le> 0" | "0 < x" "0 < b" "\<bar>b\<bar> < 2 powi ?e"
    using xb by (cases "x = 0"; cases "0 < x"; cases "b \<le> 0"; cases "2 powi ?e \<le> \<bar>b\<bar>")
      (use exponent_bounds(1) [of x] in auto)
  then show ?thesis
  proof cases
    case 1
    with xb show ?thesis by (simp add: round_to_def)
  next
    case 2
    from on_grid [OF m 2(2) p] obtain n where "b = of_int n * ?u" ..
    with round_to_grid_ge [of n x p] xb show ?thesis by simp
  next
    case 3
    have "of_int 0 * ?u \<le> round_to p x"
      using 3(1) by (intro round_to_grid_ge) simp
    with 3(2) show ?thesis by simp
  next
    case 4
    have "2 powi ?e \<le> x"
      using exponent_bounds(1) [of x] 4(1) by simp
    then have "of_int (2 ^ (p - 1)) * ?u \<le> x"
      using binade_floor [OF p, of ?e] by simp
    then have "of_int (2 ^ (p - 1)) * ?u \<le> round_to p x"
      by (rule round_to_grid_ge)
    then have "2 powi ?e \<le> round_to p x"
      using binade_floor [OF p, of ?e] by simp
    with 4 show ?thesis by simp
  qed
qed

lemma round_to_fix:
  assumes "1 \<le> p" and "representable p b"
  shows "round_to p b = b"
  using round_to_le [OF assms, of b] round_to_ge [OF assms, of b] by simp

lemma representable_int:
  assumes "\<bar>m\<bar> \<le> 2 ^ p"
  shows "representable p (of_int m * 2 powi k)"
  using assms by (auto simp: representable_def)

lemma representable_0: "representable p 0"
  using representable_int [of 0 p 0] by simp

lemma representable_double:
  assumes "representable p b"
  shows "representable p (2 * b)"
proof -
  from assms obtain m k where m: "b = of_int m * 2 powi k" "\<bar>m\<bar> \<le> 2 ^ p"
    by (auto simp: representable_def)
  have "2 * b = of_int m * 2 powi (k + 1)"
    using powi_split [of k 1] by (simp add: m(1))
  with m(2) show ?thesis by (auto simp: representable_def)
qed

lemma representable_minus:
  assumes "representable p b"
  shows "representable p (- b)"
proof -
  from assms obtain m k where m: "b = of_int m * 2 powi k" "\<bar>m\<bar> \<le> 2 ^ p"
    by (auto simp: representable_def)
  have "- b = of_int (- m) * 2 powi k" by (simp add: m(1))
  moreover have "\<bar>- m\<bar> \<le> 2 ^ p" using m(2) by simp
  ultimately show ?thesis unfolding representable_def by blast
qed

lemma representable_round_to:
  assumes "1 \<le> p"
  shows "representable p (round_to p x)"
proof (cases "x = 0")
  case True
  then show ?thesis by (simp add: round_to_def representable_0)
next
  case False
  let ?e = "exponent x"
  let ?u = "(2::real) powi (?e - int p + 1)"
  have up: "(2::real) powi (?e + 1) = of_int (2 ^ p) * ?u"
    using powi_split [of "int p" "?e - int p + 1"] by simp
  have "\<bar>x\<bar> \<le> of_int (2 ^ p) * ?u"
    using exponent_bounds(2) [OF False] up by simp
  then have "x \<le> of_int (2 ^ p) * ?u" "of_int (- (2 ^ p)) * ?u \<le> x"
    by simp_all
  then have "x / ?u \<le> of_int (2 ^ p)" "of_int (- (2 ^ p)) \<le> x / ?u"
    by (simp_all add: pos_divide_le_eq pos_le_divide_eq)
  then have "rne (x / ?u) \<le> 2 ^ p" "- (2 ^ p) \<le> rne (x / ?u)"
    using rne_le [of "x / ?u" "2 ^ p"] rne_ge [of "- (2 ^ p)" "x / ?u"] by simp_all
  then have "\<bar>rne (x / ?u)\<bar> \<le> 2 ^ p" by simp
  then have "representable p (of_int (rne (x / ?u)) * ?u)"
    by (rule representable_int)
  with False show ?thesis by (simp add: round_to_def Let_def)
qed

lemma round_to_nonneg: "1 \<le> p \<Longrightarrow> 0 \<le> x \<Longrightarrow> 0 \<le> round_to p x"
  by (rule round_to_ge [OF _ representable_0])

lemma round_to_nonpos: "1 \<le> p \<Longrightarrow> x \<le> 0 \<Longrightarrow> round_to p x \<le> 0"
  by (rule round_to_le [OF _ representable_0])

lemma round_to_neg:
  assumes p: "1 \<le> p" and x: "x < 0"
  shows "round_to p x < 0"
proof -
  let ?e = "exponent x"
  have "representable p (of_int (- 1) * 2 powi ?e)"
    by (rule representable_int) simp
  moreover have "x \<le> of_int (- 1) * 2 powi ?e"
    using exponent_bounds(1) [of x] x by simp
  ultimately have "round_to p x \<le> of_int (- 1) * 2 powi ?e"
    by (rule round_to_le [OF p])
  then have "round_to p x \<le> - (2 powi ?e)" by simp
  moreover have "0 < (2::real) powi ?e" by simp
  ultimately show ?thesis by linarith
qed

lemma round_to_pos:
  assumes p: "1 \<le> p" and x: "0 < x"
  shows "0 < round_to p x"
proof -
  let ?e = "exponent x"
  have "representable p (of_int 1 * 2 powi ?e)"
    by (rule representable_int) simp
  moreover have "of_int 1 * 2 powi ?e \<le> x"
    using exponent_bounds(1) [of x] x by simp
  ultimately have "of_int 1 * 2 powi ?e \<le> round_to p x"
    by (rule round_to_ge [OF p])
  then have "2 powi ?e \<le> round_to p x" by simp
  moreover have "0 < (2::real) powi ?e" by simp
  ultimately show ?thesis by linarith
qed

lemma round_to_absorb:
  assumes p: "1 \<le> p" and b: "representable p b"
    and lo: "2 powi e \<le> \<bar>b + t\<bar>" and hi: "\<bar>b + t\<bar> < 2 powi (e + 1)"
    and be: "2 powi e \<le> \<bar>b\<bar>"
    and t: "\<bar>t\<bar> < 2 powi (e - int p)"
  shows "round_to p (b + t) = b"
proof -
  let ?u = "(2::real) powi (e - int p + 1)"
  from b obtain m k where m: "b = of_int m * 2 powi k" "\<bar>m\<bar> \<le> 2 ^ p"
    by (auto simp: representable_def)
  from on_grid [OF m be p] obtain n where n: "b = of_int n * ?u" ..
  have ex: "exponent (b + t) = e" using lo hi by (rule exponent_eqI)
  have "0 < (2::real) powi e" by simp
  with lo have "0 < \<bar>b + t\<bar>" by linarith
  then have nz: "b + t \<noteq> 0" by simp
  have u: "?u = 2 * 2 powi (e - int p)"
    using powi_split [of "e - int p" 1] by simp
  have "(b + t) / ?u - of_int n = t / ?u"
    by (simp add: n add_divide_distrib)
  moreover have "\<bar>t / ?u\<bar> < 1 / 2"
    using t by (simp add: u abs_mult pos_divide_less_eq)
  ultimately have "\<bar>(b + t) / ?u - of_int n\<bar> < 1 / 2" by simp
  from round_to_near [OF nz ex this] show ?thesis by (simp add: n)
qed

lemma round_to_error:
  assumes "x \<noteq> 0"
  shows "\<bar>round_to p x - x\<bar> \<le> 2 powi (exponent x - int p)"
proof -
  let ?u = "(2::real) powi (exponent x - int p + 1)"
  have u: "?u = 2 * 2 powi (exponent x - int p)"
    using powi_split [of "exponent x - int p" 1] by simp
  have "round_to p x - x = (of_int (rne (x / ?u)) - x / ?u) * ?u"
    using assms by (simp add: round_to_def Let_def left_diff_distrib)
  then have "\<bar>round_to p x - x\<bar> = \<bar>of_int (rne (x / ?u)) - x / ?u\<bar> * ?u"
    by (simp add: abs_mult)
  also have "\<dots> \<le> 1 / 2 * ?u"
    by (intro mult_right_mono rne_error) simp
  finally show ?thesis by (simp add: u)
qed

lemma round_to_error_bound:
  assumes "\<bar>x\<bar> < 2 powi (k + 1)"
  shows "\<bar>round_to p x - x\<bar> \<le> 2 powi (k - int p)"
proof (cases "x = 0")
  case True
  then show ?thesis by (simp add: round_to_def)
next
  case False
  have "(2::real) powi exponent x < 2 powi (k + 1)"
    using exponent_bounds(1) [OF False] assms by linarith
  then have "exponent x \<le> k"
    using power_int_increasing [of "k + 1" "exponent x" "2::real"]
    by (cases "exponent x \<le> k") auto
  then have "(2::real) powi (exponent x - int p) \<le> 2 powi (k - int p)"
    by (intro power_int_increasing) auto
  with round_to_error [OF False, of p] show ?thesis by linarith
qed

lemma pi_ge_3: "3 \<le> pi"
proof -
  have "sin (pi / 6) \<le> pi / 6"
    by (rule sin_x_le_x) simp
  then show ?thesis by (simp add: sin_30)
qed

lemma arctan_le_self:
  assumes "0 \<le> x"
  shows "arctan x \<le> x"
proof -
  let ?f = "\<lambda>t. t - arctan t"
  have "\<And>u. \<lbrakk>0 \<le> u; u \<le> x\<rbrakk> \<Longrightarrow> \<exists>y. (?f has_real_derivative y) (at u) \<and> 0 \<le> y"
  proof -
    fix u :: real
    have "(?f has_real_derivative 1 - inverse (1 + u\<^sup>2)) (at u)"
      by (auto intro!: derivative_eq_intros)
    moreover have "inverse (1 + u\<^sup>2) \<le> 1"
      by (simp add: inverse_le_1_iff)
    ultimately show "\<exists>y. (?f has_real_derivative y) (at u) \<and> 0 \<le> y"
      by (intro exI [of _ "1 - inverse (1 + u\<^sup>2)"]) simp
  qed
  then have "?f 0 \<le> ?f x"
    by (rule DERIV_nonneg_imp_nondecreasing [OF assms])
  then show ?thesis by simp
qed

lemma representable_of_int:
  assumes "\<bar>m\<bar> \<le> 2 ^ p"
  shows "representable p (of_int m)"
  using representable_int [OF assms, of 0] by simp

lemma binary64_le: "representable 53 b \<Longrightarrow> x \<le> b \<Longrightarrow> binary64 x \<le> b"
  unfolding binary64_def by (rule round_to_le) simp_all

lemma binary64_ge: "representable 53 b \<Longrightarrow> b \<le> x \<Longrightarrow> b \<le> binary64 x"
  unfolding binary64_def by (rule round_to_ge) simp_all

lemma binary64_fix: "representable 53 b \<Longrightarrow> binary64 b = b"
  unfolding binary64_def by (rule round_to_fix) simp_all

lemma binary64_representable: "representable 53 (binary64 x)"
  unfolding binary64_def by (rule representable_round_to) simp

lemma binary64_0 [simp]: "binary64 0 = 0"
  by (simp add: binary64_def round_to_def)

lemma binary64_neg: "x < 0 \<Longrightarrow> binary64 x < 0"
  unfolding binary64_def by (rule round_to_neg) simp_all

lemma binary64_pos: "0 < x \<Longrightarrow> 0 < binary64 x"
  unfolding binary64_def by (rule round_to_pos) simp_all

lemma binary64_nonneg: "0 \<le> x \<Longrightarrow> 0 \<le> binary64 x"
  unfolding binary64_def by (rule round_to_nonneg) simp_all

lemma representable_small_int [simp]: "representable 53 3" "representable 53 4" "representable 53 (- 4)"
  using representable_of_int [of 3 53] representable_of_int [of 4 53]
    representable_of_int [of "- 4" 53] by simp_all

lemma G_PI_bounds: "3 \<le> G_PI" "G_PI \<le> 4"
  unfolding G_PI_def
  using pi_ge_3 pi_less_4 by (auto intro!: binary64_ge binary64_le)

lemma representable_G_PI: "representable 53 G_PI" "representable 53 (2 * G_PI)"
  unfolding G_PI_def by (auto intro!: representable_double binary64_representable)

lemma binary64_2_G_PI [simp]: "binary64 (2 * G_PI) = 2 * G_PI"
  by (rule binary64_fix [OF representable_G_PI(2)])

lemma binary64_near_2_G_PI:
  assumes "- (2 powi (- 52)) \<le> t" and "t < 0"
  shows "binary64 (t + 2 * G_PI) = 2 * G_PI"
proof -
  have "round_to 53 (2 * G_PI + t) = 2 * G_PI"
  proof (rule round_to_absorb [where e = 2])
    show "representable 53 (2 * G_PI)" by (rule representable_G_PI)
    show "2 powi 2 \<le> \<bar>2 * G_PI + t\<bar>" "\<bar>2 * G_PI + t\<bar> < 2 powi (2 + 1)"
      "2 powi 2 \<le> \<bar>2 * G_PI\<bar>" "\<bar>t\<bar> < 2 powi (2 - int 53)"
      using assms G_PI_bounds by simp_all
  qed simp
  then show ?thesis by (simp add: binary64_def add.commute)
qed

lemma atan2_ieee_bounds: "- 4 \<le> atan2_ieee y x" "atan2_ieee y x \<le> 4"
  unfolding atan2_ieee_def
  using atan2_range [of y x] pi_less_4 by (auto intro!: binary64_ge binary64_le)

lemma arctg_ieee_range: "0 \<le> arctg_ieee y x \<and> arctg_ieee y x \<le> 2 * G_PI"
proof (cases "atan2_ieee y x < 0")
  case True
  have "0 \<le> atan2_ieee y x + 2 * G_PI" "atan2_ieee y x + 2 * G_PI \<le> 2 * G_PI"
    using atan2_ieee_bounds(1) [of y x] G_PI_bounds True by simp_all
  then have "0 \<le> binary64 (atan2_ieee y x + 2 * G_PI)"
    "binary64 (atan2_ieee y x + 2 * G_PI) \<le> 2 * G_PI"
    by (auto intro!: binary64_nonneg binary64_le representable_G_PI)
  with True show ?thesis by (simp add: arctg_ieee_def)
next
  case False
  then show ?thesis
    using atan2_ieee_bounds(2) [of y x] G_PI_bounds by (simp add: arctg_ieee_def)
qed

lemma binary64_error_bound:
  "\<bar>x\<bar> < 2 powi (k + 1) \<Longrightarrow> \<bar>binary64 x - x\<bar> \<le> 2 powi (k - 53)"
  unfolding binary64_def using round_to_error_bound [of x k 53] by simp

lemma G_PI_error: "\<bar>G_PI - pi\<bar> \<le> 2 powi (- 52)"
  unfolding G_PI_def
  using binary64_error_bound [of pi 1] pi_less_4 pi_gt_zero by simp

lemma representable_pow2: "representable p (2 powi k)" "representable p (- (2 powi k))"
  using representable_int [of 1 p k] representable_int [of "- 1" p k] by simp_all

lemma atan2_ieee_below_axis:
  "- (2 powi (- 52)) \<le> atan2_ieee (- (2 powi (- 47))) 50 \<and> atan2_ieee (- (2 powi (- 47))) 50 < 0"
proof -
  let ?q = "(2::real) powi (- 47) / 50"
  have a: "atan2 (- (2 powi (- 47))) 50 = - arctan ?q"
    by (simp add: atan2_def arctan_minus)
  have "0 < ?q" by simp
  then have pos: "0 < arctan ?q"
    by (simp only: zero_less_arctan_iff)
  have "arctan ?q \<le> ?q" by (rule arctan_le_self) simp
  also have "?q \<le> 2 powi (- 52)" by simp
  finally have "- (2 powi (- 52)) \<le> - arctan ?q" by simp
  then have "- (2 powi (- 52)) \<le> binary64 (- arctan ?q)"
    by (rule binary64_ge [OF representable_pow2(2)])
  moreover have "binary64 (- arctan ?q) < 0"
    using pos by (intro binary64_neg) simp
  ultimately show ?thesis unfolding atan2_ieee_def a by blast
qed

lemma arctg_ieee_below_axis: "arctg_ieee (- (2 powi (- 47))) 50 = 2 * G_PI"
  using atan2_ieee_below_axis binary64_near_2_G_PI [of "atan2_ieee (- (2 powi (- 47))) 50"]
  by (simp add: arctg_ieee_def Let_def)

lemma arctg_ieee_east: "0 < x \<Longrightarrow> arctg_ieee 0 x = 0"
  by (simp add: arctg_ieee_def atan2_ieee_def atan2_def)

lemma arctg_ieee_north: "arctg_ieee 1 0 = binary64 (pi / 2)"
proof -
  have "0 < binary64 (pi / 2)" by (rule binary64_pos) simp
  then show ?thesis by (simp add: arctg_ieee_def atan2_ieee_def atan2_def)
qed

lemma arctg_ieee_west: "arctg_ieee 0 (- 1) = G_PI"
  using G_PI_bounds by (simp add: arctg_ieee_def atan2_ieee_def atan2_def G_PI_def)

lemma arctg_ieee_south: "arctg_ieee (- 1) 0 = binary64 (binary64 (- (pi / 2)) + 2 * G_PI)"
proof -
  have "binary64 (- (pi / 2)) < 0" by (rule binary64_neg) simp
  then show ?thesis by (simp add: arctg_ieee_def atan2_ieee_def atan2_def)
qed

lemma arctg_ieee_north_error: "\<bar>arctg_ieee 1 0 - pi / 2\<bar> \<le> 2 powi (- 53)"
  using binary64_error_bound [of "pi / 2" 0] pi_less_4 pi_gt_zero
  by (simp add: arctg_ieee_north)

lemma arctg_ieee_south_error: "\<bar>arctg_ieee (- 1) 0 - 3 * pi / 2\<bar> \<le> 2 powi (- 49)"
proof -
  let ?a = "binary64 (- (pi / 2))"
  have a: "\<bar>?a - - (pi / 2)\<bar> \<le> 2 powi (- 53)"
    using binary64_error_bound [of "- (pi / 2)" 0] pi_less_4 pi_gt_zero by simp
  have g: "\<bar>G_PI - pi\<bar> \<le> 2 powi (- 52)" by (rule G_PI_error)
  have s: "\<bar>(?a + 2 * G_PI) - 3 * pi / 2\<bar> \<le> 2 powi (- 53) + 2 * 2 powi (- 52)"
    using a g by linarith
  have small: "(2::real) powi (- 53) + 2 * 2 powi (- 52) \<le> 1" by simp
  have "0 \<le> ?a + 2 * G_PI" "?a + 2 * G_PI < 8"
    using s small pi_less_4 pi_ge_3 by linarith+
  then have "\<bar>?a + 2 * G_PI\<bar> < 2 powi (2 + 1)" by simp
  then have "\<bar>binary64 (?a + 2 * G_PI) - (?a + 2 * G_PI)\<bar> \<le> 2 powi (2 - 53)"
    by (rule binary64_error_bound)
  then have "\<bar>binary64 (?a + 2 * G_PI) - (?a + 2 * G_PI)\<bar> \<le> 2 powi (- 51)" by simp
  with s have "\<bar>binary64 (?a + 2 * G_PI) - 3 * pi / 2\<bar>
      \<le> 2 powi (- 53) + 2 * 2 powi (- 52) + 2 powi (- 51)"
    by linarith
  also have "\<dots> \<le> 2 powi (- 49)" by simp
  finally show ?thesis by (simp add: arctg_ieee_south)
qed

subsection \<open>The handlers in IEEE arithmetic\<close>

lemma angle_mod_2PI_ieee_id:
  "0 \<le> x \<Longrightarrow> x \<le> 2 * G_PI \<Longrightarrow> angle_mod_2PI_ieee x = x"
  by (simp add: angle_mod_2PI_ieee_def)

lemma pointer_angle_ieee_range:
  "0 \<le> pointer_angle_ieee allocation px py \<and> pointer_angle_ieee allocation px py \<le> 2 * G_PI"
  unfolding pointer_angle_ieee_def
  using arctg_ieee_range by (simp add: angle_mod_2PI_ieee_id)

lemma g_object_set_double_ieee_alpha:
  "alpha (g_object_set_double_ieee dial PROP_ALPHA v)
     = (if 0 \<le> v \<and> v \<le> 2 * G_PI then v else alpha dial)"
  "beta (g_object_set_double_ieee dial PROP_ALPHA v) = beta dial"
  "target (g_object_set_double_ieee dial PROP_ALPHA v) = target dial"
  "press_angle (g_object_set_double_ieee dial PROP_ALPHA v) = press_angle dial"
  by (simp_all add: g_object_set_double_ieee_def)

lemma g_object_set_double_ieee_beta:
  "beta (g_object_set_double_ieee dial PROP_BETA v)
     = (if 0 \<le> v \<and> v \<le> 2 * G_PI then v else beta dial)"
  "alpha (g_object_set_double_ieee dial PROP_BETA v) = alpha dial"
  "target (g_object_set_double_ieee dial PROP_BETA v) = target dial"
  "press_angle (g_object_set_double_ieee dial PROP_BETA v) = press_angle dial"
  by (simp_all add: g_object_set_double_ieee_def)

lemma g_object_set_double_ieee_in_range:
  assumes "angles_in_range dial" and "pid = PROP_ALPHA \<or> pid = PROP_BETA"
  shows "angles_in_range (g_object_set_double_ieee dial pid v)"
  using assms
  by (auto simp: angles_in_range_def g_object_set_double_ieee_alpha g_object_set_double_ieee_beta)

lemma angles_in_range_update [simp]:
  "angles_in_range (dial\<lparr>press_angle := a\<rparr>) = angles_in_range dial"
  "angles_in_range (dial\<lparr>target := t\<rparr>) = angles_in_range dial"
  "angles_in_range (dial\<lparr>has_grab := g\<rparr>) = angles_in_range dial"
  "angles_in_range (dial\<lparr>press_state := s\<rparr>) = angles_in_range dial"
  by (simp_all add: angles_in_range_def)

lemma press_ieee_in_range:
  assumes "angles_in_range dial"
  shows "angles_in_range (gimp_dial_button_press_event_ieee ctx allocation dial bevent)"
  using assms
  by (simp add: gimp_dial_button_press_event_ieee_def Let_def g_object_set_double_ieee_in_range)

lemma motion_ieee_in_range:
  assumes "angles_in_range dial"
  shows "angles_in_range (gimp_dial_motion_notify_event_ieee allocation dial mevent)"
  using assms
  by (simp add: gimp_dial_motion_notify_event_ieee_def Let_def g_object_set_double_ieee_in_range)

lemma release_in_range:
  assumes "angles_in_range dial"
  shows "angles_in_range (gimp_dial_button_release_event dial bevent)"
  using assms by (simp add: gimp_dial_button_release_event_def)

lemma press_ieee_primary_unfold:
  assumes "primary_press ctx bevent"
  shows "gimp_dial_button_press_event_ieee ctx allocation dial bevent =
    (let pa = pointer_angle_ieee allocation (event_x bevent) (event_y bevent);
         cx = binary64 (real_of_int (width allocation) / 2);
         cy = binary64 (real_of_int (height allocation) / 2);
         dial2 = dial\<lparr>has_grab := True, press_state := event_state bevent, press_angle := pa\<rparr>
     in if binary64 (sqrt (binary64 (SQR_ieee (binary64 (event_y bevent - cy))
                                     + SQR_ieee (binary64 (event_x bevent - cx)))))
             > binary64 (binary64 (real_of_int (dial_size allocation dial) / 2) * EACH_OR_BOTH_ieee)
           \<and> min_prox_ieee (alpha dial) (beta dial) pa < binary64 (G_PI / 12)
        then (if closest_ieee (alpha dial) (beta dial) pa = DIAL_TARGET_ALPHA
              then dial2\<lparr>target := DIAL_TARGET_ALPHA, alpha := pa\<rparr>
              else dial2\<lparr>target := closest_ieee (alpha dial) (beta dial) pa, beta := pa\<rparr>)
        else dial2\<lparr>target := DIAL_TARGET_BOTH\<rparr>)"
  using assms pointer_angle_ieee_range [of allocation "event_x bevent" "event_y bevent"]
  by (simp add: primary_press_def gimp_dial_button_press_event_ieee_def Let_def
      pointer_angle_ieee_def dial_size_def g_object_set_double_ieee_def)

lemma binary64_of_int:
  "\<bar>m\<bar> \<le> 2 ^ 53 \<Longrightarrow> binary64 (of_int m) = of_int m"
  by (rule binary64_fix) (rule representable_of_int)

lemma binary64_minus_fix: "representable 53 b \<Longrightarrow> binary64 (- b) = - b"
  by (rule binary64_fix) (rule representable_minus)

lemma binary64_G_PI [simp]: "binary64 G_PI = G_PI" "binary64 (- G_PI) = - G_PI"
  "binary64 (- (2 * G_PI)) = - (2 * G_PI)"
  using representable_G_PI by (simp_all add: binary64_fix binary64_minus_fix)

lemma binary64_pow2 [simp]: "binary64 (2 powi k) = 2 powi k" "binary64 (- (2 powi k)) = - (2 powi k)"
  by (rule binary64_fix, rule representable_pow2)+

lemma binary64_50 [simp]: "binary64 50 = 50" "binary64 2500 = 2500"
  using binary64_of_int [of 50] binary64_of_int [of 2500] by simp_all

lemma binary64_2500_absorb: "binary64 (2 powi (- 94) + 2500) = 2500"
proof -
  have "round_to 53 (2500 + 2 powi (- 94)) = 2500"
  proof (rule round_to_absorb [where e = 11])
    show "representable 53 2500"
      using representable_of_int [of 2500 53] by simp
  qed simp_all
  then show ?thesis by (simp add: binary64_def add.commute)
qed

lemma threshold_50: "binary64 (50 * EACH_OR_BOTH_ieee) \<le> 25"
proof -
  have h: "representable 53 (1 / 2)" "representable 53 25"
    using representable_pow2(1) [of 53 "- 1"] representable_of_int [of 25 53] by simp_all
  have "EACH_OR_BOTH_ieee \<le> 1 / 2"
    unfolding EACH_OR_BOTH_ieee_def by (rule binary64_le [OF h(1)]) simp
  then have "50 * EACH_OR_BOTH_ieee \<le> 25" by simp
  then show ?thesis by (rule binary64_le [OF h(2)])
qed

lemma G_PI_12_pos: "0 < binary64 (G_PI / 12)"
  using G_PI_bounds by (intro binary64_pos) simp

lemma min_prox_ieee_snap: "min_prox_ieee 0 G_PI (2 * G_PI) = 0"
  using G_PI_bounds
  by (simp add: min_prox_ieee_def angle_mod_2PI_ieee_def MIN_macro_def Let_def)

lemma closest_ieee_snap: "closest_ieee 0 G_PI (2 * G_PI) = DIAL_TARGET_ALPHA"
  using G_PI_bounds
  by (simp add: closest_ieee_def angle_mod_2PI_ieee_def MIN_macro_def Let_def)

lemma pointer_angle_ieee_below_axis:
  "pointer_angle_ieee (square_allocation 100) 100 (50 + 2 powi (- 47)) = 2 * G_PI"
proof -
  have "binary64 (50 - (50 + 2 powi (- 47))) = - (2 powi (- 47))"
    by (simp del: power_int_numeral_neg_numeral)
  moreover have "binary64 (100 - 50) = 50"
    using binary64_50(1) by simp
  ultimately show ?thesis
    using G_PI_bounds
    by (simp add: pointer_angle_ieee_def arctg_ieee_below_axis angle_mod_2PI_ieee_id
        del: power_int_numeral_neg_numeral)
qed

lemma press_below_axis_snaps_2_G_PI:
  "alpha (gimp_dial_button_press_event_ieee no_context_menu (square_allocation 100)
            gimp_dial_new_ieee (press_at 100 (50 + 2 powi (- 47)))) = 2 * G_PI"
proof -
  have dy: "binary64 (50 + 2 powi (- 47) - 50) = 2 powi (- 47)"
    by (simp del: power_int_numeral_neg_numeral)
  have dx: "binary64 (100 - 50) = 50"
    using binary64_50(1) by simp
  have "(2::real) powi (- 47) * 2 powi (- 47) = 2 powi (- 94)"
    using powi_split [of "- 47" "- 47"] by (simp del: power_int_numeral_neg_numeral)
  then have sq: "SQR_ieee (2 powi (- 47)) = 2 powi (- 94)" "SQR_ieee 50 = 2500"
    by (simp_all add: SQR_ieee_def del: power_int_numeral_neg_numeral)
  have rt: "sqrt 2500 = 50"
    by (rule real_sqrt_unique) simp_all
  have d: "binary64 (sqrt (binary64 (SQR_ieee (2 powi (- 47)) + SQR_ieee 50))) = 50"
    unfolding sq binary64_2500_absorb rt by (rule binary64_50)
  have sz: "dial_size (square_allocation 100) gimp_dial_new_ieee = 100"
    by (simp add: dial_size_def MIN_macro_def gimp_dial_new_ieee_def)
  have th: "binary64 (binary64 (real_of_int 100 / 2) * EACH_OR_BOTH_ieee) < 50"
    using threshold_50 by simp
  have ab: "alpha gimp_dial_new_ieee = 0" "beta gimp_dial_new_ieee = G_PI"
    by (simp_all add: gimp_dial_new_ieee_def)
  show ?thesis
    using th G_PI_12_pos
    by (simp add: press_ieee_primary_unfold [OF primary_press_at] Let_def sz ab d
        pointer_angle_ieee_below_axis min_prox_ieee_snap closest_ieee_snap
        del: power_int_numeral_neg_numeral)
qed

lemma circle_distance_turn:
  fixes T v1 v2 e :: real
  assumes "0 < T" "\<bar>v1\<bar> \<le> T" "\<bar>v2\<bar> \<le> T" "\<bar>e\<bar> \<le> d"
    and "v2 = v1 + e \<or> v2 = v1 + T + e \<or> v2 = v1 - T + e
         \<or> v2 = v1 + 2 * T + e \<or> v2 = v1 - 2 * T + e"
  shows "\<bar>min \<bar>v2\<bar> (T - \<bar>v2\<bar>) - min \<bar>v1\<bar> (T - \<bar>v1\<bar>)\<bar> \<le> d"
proof -
  from assms(5) consider "v2 = v1 + e" | "v2 = v1 + T + e" | "v2 = v1 - T + e"
    | "v2 = v1 + 2 * T + e" | "v2 = v1 - 2 * T + e" by blast
  then show ?thesis
  proof cases
    case 1 with assms(1-4) show ?thesis by (simp add: abs_if min_def split: if_splits)
  next
    case 2 with assms(1-4) show ?thesis by (simp add: abs_if min_def split: if_splits)
  next
    case 3 with assms(1-4) show ?thesis by (simp add: abs_if min_def split: if_splits)
  next
    case 4 with assms(1-4) show ?thesis by (simp add: abs_if min_def split: if_splits)
  next
    case 5 with assms(1-4) show ?thesis by (simp add: abs_if min_def split: if_splits)
  qed
qed

lemma binary64_error_16: "\<bar>x\<bar> < 16 \<Longrightarrow> \<bar>binary64 x - x\<bar> \<le> 2 powi (- 50)"
  using binary64_error_bound [of x 3] by simp

lemma binary64_error_32: "\<bar>x\<bar> < 32 \<Longrightarrow> \<bar>binary64 x - x\<bar> \<le> 2 powi (- 49)"
  using binary64_error_bound [of x 4] by simp

lemma representable_turns:
  "representable 53 (- (2 * G_PI))" "representable 53 (4 * G_PI)"
  using representable_minus [OF representable_G_PI(2)]
    representable_double [OF representable_G_PI(2)] by simp_all

lemma angle_mod_2PI_ieee_cases:
  assumes "- (2 * G_PI) \<le> x" and "x \<le> 4 * G_PI"
  shows "0 \<le> angle_mod_2PI_ieee x \<and> angle_mod_2PI_ieee x \<le> 2 * G_PI
       \<and> (angle_mod_2PI_ieee x = x
          \<or> \<bar>angle_mod_2PI_ieee x - (x + 2 * G_PI)\<bar> \<le> 2 powi (- 50)
          \<or> \<bar>angle_mod_2PI_ieee x - (x - 2 * G_PI)\<bar> \<le> 2 powi (- 50))"
proof -
  consider "x < 0" | "2 * G_PI < x" | "0 \<le> x" "x \<le> 2 * G_PI" by linarith
  then show ?thesis
  proof cases
    case 1
    have r: "0 \<le> x + 2 * G_PI" "x + 2 * G_PI \<le> 2 * G_PI" "\<bar>x + 2 * G_PI\<bar> < 16"
      using assms 1 G_PI_bounds by simp_all
    have "0 \<le> binary64 (x + 2 * G_PI)" "binary64 (x + 2 * G_PI) \<le> 2 * G_PI"
      using r(1,2) by (auto intro!: binary64_nonneg binary64_le representable_G_PI)
    moreover note binary64_error_16 [OF r(3)]
    ultimately show ?thesis using 1 by (simp add: angle_mod_2PI_ieee_def)
  next
    case 2
    have r: "0 \<le> x - 2 * G_PI" "x - 2 * G_PI \<le> 2 * G_PI" "\<bar>x - 2 * G_PI\<bar> < 16"
      using assms 2 G_PI_bounds by simp_all
    have "0 \<le> binary64 (x - 2 * G_PI)" "binary64 (x - 2 * G_PI) \<le> 2 * G_PI"
      using r(1,2) by (auto intro!: binary64_nonneg binary64_le representable_G_PI)
    moreover note binary64_error_16 [OF r(3)]
    moreover have "\<not> x < 0" using 2 G_PI_bounds by simp
    ultimately show ?thesis using 2 by (simp add: angle_mod_2PI_ieee_def)
  next
    case 3
    then show ?thesis by (simp add: angle_mod_2PI_ieee_def)
  qed
qed

lemma rotate_ieee:
  fixes a d :: real
  assumes "0 \<le> a" and "a \<le> 2 * G_PI" and "\<bar>d\<bar> \<le> 2 * G_PI"
  shows "0 \<le> angle_mod_2PI_ieee (binary64 (a + d))"
    and "angle_mod_2PI_ieee (binary64 (a + d)) \<le> 2 * G_PI"
    and "\<exists>e. \<bar>e\<bar> \<le> 2 powi (- 49) + 2 powi (- 50)
            \<and> (angle_mod_2PI_ieee (binary64 (a + d)) = a + d + e
               \<or> angle_mod_2PI_ieee (binary64 (a + d)) = a + d + 2 * G_PI + e
               \<or> angle_mod_2PI_ieee (binary64 (a + d)) = a + d - 2 * G_PI + e)"
proof -
  let ?s = "binary64 (a + d)"
  define a' where "a' = angle_mod_2PI_ieee (binary64 (a + d))"
  have s: "- (2 * G_PI) \<le> a + d" "a + d \<le> 4 * G_PI" "\<bar>a + d\<bar> < 32"
    using assms(1-3) G_PI_bounds by (simp_all add: abs_if split: if_splits)
  have rs: "- (2 * G_PI) \<le> ?s" "?s \<le> 4 * G_PI"
    using s(1,2) by (auto intro!: binary64_ge binary64_le representable_turns)
  have es: "\<bar>?s - (a + d)\<bar> \<le> 2 powi (- 49)"
    by (rule binary64_error_32 [OF s(3)])
  from angle_mod_2PI_ieee_cases [OF rs]
  have c: "0 \<le> a'" "a' \<le> 2 * G_PI"
    "a' = ?s \<or> \<bar>a' - (?s + 2 * G_PI)\<bar> \<le> 2 powi (- 50) \<or> \<bar>a' - (?s - 2 * G_PI)\<bar> \<le> 2 powi (- 50)"
    by (simp_all add: a'_def)
  show "0 \<le> angle_mod_2PI_ieee (binary64 (a + d))"
    "angle_mod_2PI_ieee (binary64 (a + d)) \<le> 2 * G_PI"
    using c(1,2) by (simp_all add: a'_def)
  from c(3) consider "a' = ?s" | "\<bar>a' - (?s + 2 * G_PI)\<bar> \<le> 2 powi (- 50)"
    | "\<bar>a' - (?s - 2 * G_PI)\<bar> \<le> 2 powi (- 50)" by blast
  then have "\<exists>e. \<bar>e\<bar> \<le> 2 powi (- 49) + 2 powi (- 50)
            \<and> (a' = a + d + e \<or> a' = a + d + 2 * G_PI + e \<or> a' = a + d - 2 * G_PI + e)"
  proof cases
    case 1
    have "\<bar>a' - (a + d)\<bar> \<le> 2 powi (- 49) + 2 powi (- 50)"
      using es 1 by simp
    then show ?thesis by (intro exI [of _ "a' - (a + d)"]) simp
  next
    case 2
    have "\<bar>a' - (a + d + 2 * G_PI)\<bar> \<le> 2 powi (- 49) + 2 powi (- 50)"
      using es 2 by linarith
    then show ?thesis by (intro exI [of _ "a' - (a + d + 2 * G_PI)"]) simp
  next
    case 3
    have "\<bar>a' - (a + d - 2 * G_PI)\<bar> \<le> 2 powi (- 49) + 2 powi (- 50)"
      using es 3 by linarith
    then show ?thesis by (intro exI [of _ "a' - (a + d - 2 * G_PI)"]) simp
  qed
then show "\<exists>e. \<bar>e\<bar> \<le> 2 powi (- 49) + 2 powi (- 50)
            \<and> (angle_mod_2PI_ieee (binary64 (a + d)) = a + d + e
               \<or> angle_mod_2PI_ieee (binary64 (a + d)) = a + d + 2 * G_PI + e
               \<or> angle_mod_2PI_ieee (binary64 (a + d)) = a + d - 2 * G_PI + e)"
    by (simp only: a'_def)
qed

lemma min_close:
  fixes w z p q d :: real
  assumes "\<bar>w - p\<bar> \<le> d" and "\<bar>z - q\<bar> \<le> d"
  shows "\<bar>min w z - min p q\<bar> \<le> d"
  using assms by (simp add: min_def abs_if split: if_splits)

lemma abs_diff_le:
  fixes x y c :: real
  shows "\<bar>x\<bar> \<le> c \<Longrightarrow> \<bar>y\<bar> \<le> c \<Longrightarrow> \<bar>x - y\<bar> \<le> 2 * c"
  by linarith

lemma abs_chain3:
  fixes p q r s c1 c2 c3 :: real
  shows "\<bar>p - q\<bar> \<le> c1 \<Longrightarrow> \<bar>q - r\<bar> \<le> c2 \<Longrightarrow> \<bar>r - s\<bar> \<le> c3 \<Longrightarrow> \<bar>p - s\<bar> \<le> c1 + c2 + c3"
  by linarith

lemma angular_distance_ieee_circle:
  assumes "0 \<le> x" "x \<le> 2 * G_PI" "0 \<le> y" "y \<le> 2 * G_PI"
  shows "\<bar>angular_distance_ieee x y - circle_distance (x - y)\<bar> \<le> 3 * 2 powi (- 50)"
proof -
  let ?T = "2 * G_PI"
  let ?u = "x - y"
  let ?v = "binary64 (x - y)"
  let ?w = "angle_mod_2PI_ieee ?v"
  let ?z = "binary64 (?T - ?w)"
  have u: "- ?T \<le> ?u" "?u \<le> ?T" "\<bar>?u\<bar> < 16"
    using assms G_PI_bounds by (simp_all add: abs_if)
  have v: "- ?T \<le> ?v" "?v \<le> ?T"
    using u(1,2) by (auto intro!: binary64_ge binary64_le representable_turns representable_G_PI)
  have ev: "\<bar>?v - ?u\<bar> \<le> 2 powi (- 50)"
    by (rule binary64_error_16 [OF u(3)])
  have d: "angular_distance_ieee x y = min ?w ?z"
    by (simp add: angular_distance_ieee_def MIN_macro_eq_min)
  have c: "circle_distance ?u = min \<bar>?u\<bar> (?T - \<bar>?u\<bar>)"
    by (simp add: circle_distance_def)
  show ?thesis
  proof (cases "?v < 0")
    case True
    have r: "0 \<le> ?v + ?T" "?v + ?T \<le> ?T" "\<bar>?v + ?T\<bar> < 16"
      using v True G_PI_bounds by simp_all
    have w: "?w = binary64 (?v + ?T)"
      using True by (simp add: angle_mod_2PI_ieee_def)
    have wr: "0 \<le> ?w" "?w \<le> ?T"
      unfolding w using r(1,2) by (auto intro!: binary64_nonneg binary64_le representable_G_PI)
    have ew: "\<bar>?w - (?v + ?T)\<bar> \<le> 2 powi (- 50)"
      unfolding w by (rule binary64_error_16 [OF r(3)])
    have "\<bar>?T - ?w\<bar> < 16" using wr G_PI_bounds by simp
    then have ez: "\<bar>?z - (?T - ?w)\<bar> \<le> 2 powi (- 50)"
      by (rule binary64_error_16)
    have 1: "\<bar>?w - (?T - \<bar>?u\<bar>)\<bar> \<le> 3 * 2 powi (- 50)"
      using ew ev True by (simp add: abs_if split: if_splits)
    have 2: "\<bar>?z - \<bar>?u\<bar>\<bar> \<le> 3 * 2 powi (- 50)"
      using ez ew ev True by (simp add: abs_if split: if_splits)
    have "\<bar>min ?w ?z - min (?T - \<bar>?u\<bar>) \<bar>?u\<bar>\<bar> \<le> 3 * 2 powi (- 50)"
      by (rule min_close [OF 1 2])
    then show ?thesis by (simp only: d c min.commute)
  next
    case False
    have w: "?w = ?v"
      using False v by (simp add: angle_mod_2PI_ieee_def)
    have "\<bar>?T - ?v\<bar> < 16" using v False G_PI_bounds by simp
    then have ez: "\<bar>binary64 (?T - ?v) - (?T - ?v)\<bar> \<le> 2 powi (- 50)"
      by (rule binary64_error_16)
    have 1: "\<bar>?v - \<bar>?u\<bar>\<bar> \<le> 3 * 2 powi (- 50)"
      using ev False by (simp add: abs_if split: if_splits)
    have 2: "\<bar>binary64 (?T - ?v) - (?T - \<bar>?u\<bar>)\<bar> \<le> 3 * 2 powi (- 50)"
      using ez ev False by (simp add: abs_if split: if_splits)
    have "\<bar>min ?v (binary64 (?T - ?v)) - min \<bar>?u\<bar> (?T - \<bar>?u\<bar>)\<bar> \<le> 3 * 2 powi (- 50)"
      by (rule min_close [OF 1 2])
    then show ?thesis by (simp only: d c w)
  qed
qed

lemma rotate_both_ieee:
  assumes a: "0 \<le> a" "a \<le> 2 * G_PI" and b: "0 \<le> b" "b \<le> 2 * G_PI"
    and d: "\<bar>d\<bar> \<le> 2 * G_PI"
  shows "\<bar>angular_distance_ieee (angle_mod_2PI_ieee (binary64 (a + d)))
                                (angle_mod_2PI_ieee (binary64 (b + d)))
          - angular_distance_ieee a b\<bar> \<le> 2 powi (- 46)"
proof -
  let ?T = "2 * G_PI"
  let ?a = "angle_mod_2PI_ieee (binary64 (a + d))"
  let ?b = "angle_mod_2PI_ieee (binary64 (b + d))"
  let ?eps = "(2::real) powi (- 49) + 2 powi (- 50)"
  note ra = rotate_ieee [OF a d] and rb = rotate_ieee [OF b d]
  from ra(3) obtain ea where ea: "\<bar>ea\<bar> \<le> ?eps"
    "?a = a + d + ea \<or> ?a = a + d + ?T + ea \<or> ?a = a + d - ?T + ea" by blast
  from rb(3) obtain eb where eb: "\<bar>eb\<bar> \<le> ?eps"
    "?b = b + d + eb \<or> ?b = b + d + ?T + eb \<or> ?b = b + d - ?T + eb" by blast
  have e: "\<bar>ea - eb\<bar> \<le> 2 * ?eps" using ea(1) eb(1) by (rule abs_diff_le)
  have v1: "\<bar>a - b\<bar> \<le> ?T" using a b by (simp add: abs_if)
  have v2: "\<bar>?a - ?b\<bar> \<le> ?T" using ra(1,2) rb(1,2) by (simp add: abs_if)
  have j: "?a - ?b = (a - b) + (ea - eb) \<or> ?a - ?b = (a - b) + ?T + (ea - eb)
         \<or> ?a - ?b = (a - b) - ?T + (ea - eb) \<or> ?a - ?b = (a - b) + 2 * ?T + (ea - eb)
         \<or> ?a - ?b = (a - b) - 2 * ?T + (ea - eb)"
    using ea(2) eb(2) by linarith
  have T: "0 < ?T" using G_PI_bounds by simp
  have "\<bar>min \<bar>?a - ?b\<bar> (?T - \<bar>?a - ?b\<bar>) - min \<bar>a - b\<bar> (?T - \<bar>a - b\<bar>)\<bar> \<le> 2 * ?eps"
    by (rule circle_distance_turn [OF T v1 v2 e j])
  then have c: "\<bar>circle_distance (?a - ?b) - circle_distance (a - b)\<bar> \<le> 2 * ?eps"
    by (simp only: circle_distance_def)
  have c': "\<bar>circle_distance (a - b) - angular_distance_ieee a b\<bar> \<le> 3 * 2 powi (- 50)"
    using angular_distance_ieee_circle [OF a b] by (simp only: abs_minus_commute)
  have "\<bar>angular_distance_ieee ?a ?b - angular_distance_ieee a b\<bar>
      \<le> 3 * 2 powi (- 50) + 2 * ?eps + 3 * 2 powi (- 50)"
    by (rule abs_chain3 [OF angular_distance_ieee_circle [OF ra(1,2) rb(1,2)] c c'])
  also have "\<dots> \<le> 2 powi (- 46)" by simp
  finally show ?thesis .
qed

lemma motion_ieee_unfold:
  "gimp_dial_motion_notify_event_ieee allocation dial mevent =
    (let ma = motion_angle_ieee allocation mevent;
         delta = motion_delta_ieee allocation dial mevent;
         dial1 = dial\<lparr>press_angle := ma\<rparr>
     in if delta \<noteq> 0 then
          if target dial = DIAL_TARGET_ALPHA then g_object_set_double_ieee dial1 PROP_ALPHA ma
          else if target dial = DIAL_TARGET_BETA then g_object_set_double_ieee dial1 PROP_BETA ma
          else g_object_set_double_ieee
                 (g_object_set_double_ieee dial1 PROP_ALPHA
                    (angle_mod_2PI_ieee (binary64 (alpha dial + delta))))
                 PROP_BETA (angle_mod_2PI_ieee (binary64 (beta dial + delta)))
        else dial1)"
  by (simp add: gimp_dial_motion_notify_event_ieee_def Let_def motion_angle_ieee_def
      motion_delta_ieee_def pointer_angle_ieee_def)

lemma motion_ieee_both:
  assumes "target dial = DIAL_TARGET_BOTH" and "angles_in_range dial"
    and "\<bar>motion_delta_ieee allocation dial mevent\<bar> \<le> 2 * G_PI"
    and "motion_delta_ieee allocation dial mevent \<noteq> 0"
  shows "alpha (gimp_dial_motion_notify_event_ieee allocation dial mevent)
           = angle_mod_2PI_ieee (binary64 (alpha dial + motion_delta_ieee allocation dial mevent))"
    and "beta (gimp_dial_motion_notify_event_ieee allocation dial mevent)
           = angle_mod_2PI_ieee (binary64 (beta dial + motion_delta_ieee allocation dial mevent))"
proof -
  have r: "0 \<le> alpha dial" "alpha dial \<le> 2 * G_PI" "0 \<le> beta dial" "beta dial \<le> 2 * G_PI"
    using assms(2) by (simp_all add: angles_in_range_def)
  note ra = rotate_ieee(1,2) [OF r(1,2) assms(3)] and rb = rotate_ieee(1,2) [OF r(3,4) assms(3)]
  show "alpha (gimp_dial_motion_notify_event_ieee allocation dial mevent)
           = angle_mod_2PI_ieee (binary64 (alpha dial + motion_delta_ieee allocation dial mevent))"
    using assms(1,4) ra rb
    by (simp add: motion_ieee_unfold Let_def g_object_set_double_ieee_def)
  show "beta (gimp_dial_motion_notify_event_ieee allocation dial mevent)
           = angle_mod_2PI_ieee (binary64 (beta dial + motion_delta_ieee allocation dial mevent))"
    using assms(1,4) ra rb
    by (simp add: motion_ieee_unfold Let_def g_object_set_double_ieee_def)
qed

lemma motion_ieee_still:
  assumes "motion_delta_ieee allocation dial mevent = 0"
  shows "alpha (gimp_dial_motion_notify_event_ieee allocation dial mevent) = alpha dial"
    and "beta (gimp_dial_motion_notify_event_ieee allocation dial mevent) = beta dial"
  using assms by (simp_all add: motion_ieee_unfold Let_def)

lemma binary32_fix: "representable 24 b \<Longrightarrow> binary32 b = b"
  unfolding binary32_def by (rule round_to_fix) simp_all

lemma binary32_0 [simp]: "binary32 0 = 0"
  by (simp add: binary32_def round_to_def)

lemma pointer_angle_ieee_east:
  "pointer_angle_ieee (square_allocation 100) 100 50 = 0"
proof -
  have "binary64 (100 - 50) = 50" using binary64_50(1) by simp
  then show ?thesis
    using G_PI_bounds
    by (simp add: pointer_angle_ieee_def arctg_ieee_east angle_mod_2PI_ieee_id)
qed

lemma motion_angle_ieee_east:
  "motion_angle_ieee (square_allocation 100) (motion_at 100 50) = 0"
  by (simp add: motion_angle_ieee_def pointer_angle_ieee_east)

lemma dial_both_sel [simp]:
  "alpha (dial_both a b p) = a" "beta (dial_both a b p) = b"
  "press_angle (dial_both a b p) = p" "target (dial_both a b p) = DIAL_TARGET_BOTH"
  by (simp_all add: dial_both_def)

lemma representable_half: "representable p (1 / 2)" "representable p (- (1 / 2))"
  using representable_pow2 [of p "- 1"] by simp_all

lemma motion_delta_half:
  "motion_delta_ieee (square_allocation 100) (dial_both 1 2 (1 / 2)) (motion_at 100 50) = - (1 / 2)"
  using binary64_fix [OF representable_half(2)] binary32_fix [OF representable_half(2)]
  by (simp add: motion_delta_ieee_def motion_angle_ieee_east)

lemma binary64_5_absorb: "binary64 (5 - 3 * 2 powi (- 53)) = 5"
proof -
  have "round_to 53 (5 + - (3 * 2 powi (- 53))) = 5"
  proof (rule round_to_absorb [where e = 2])
    show "representable 53 5"
      using representable_of_int [of 5 53] by simp
  qed simp_all
  then show ?thesis by (simp add: binary64_def)
qed

lemma representable_below_4: "representable 53 (4 - 2 powi (- 51))"
  using representable_int [of "2 ^ 53 - 1" 53 "- 51"] by simp

lemma binary64_4_near: "binary64 (4 - 3 * 2 powi (- 53)) = 4 - 2 powi (- 51)"
proof -
  have "round_to 53 ((4 - 2 powi (- 51)) + 2 powi (- 53)) = 4 - 2 powi (- 51)"
    by (rule round_to_absorb [where e = 1, OF _ representable_below_4]) simp_all
  then show ?thesis by (simp add: binary64_def)
qed

lemma representable_3_tiny:
  "representable 24 (- (3 * 2 powi (- 53)))" "representable 53 (- (3 * 2 powi (- 53)))"
  using representable_int [of "- 3" 24 "- 53"] representable_int [of "- 3" 53 "- 53"]
  by (simp_all del: power_int_numeral_neg_numeral)

lemma motion_delta_tiny:
  "motion_delta_ieee (square_allocation 100) (dial_both 5 4 (3 * 2 powi (- 53))) (motion_at 100 50)
     = - (3 * 2 powi (- 53))"
  using binary64_fix [OF representable_3_tiny(2)] binary32_fix [OF representable_3_tiny(1)]
  by (simp add: motion_delta_ieee_def motion_angle_ieee_east del: power_int_numeral_neg_numeral)

lemma angular_distance_ieee_5_4: "angular_distance_ieee 5 4 = 1"
proof -
  have "binary64 (5 - 4) = 1" using binary64_of_int [of 1] by simp
  moreover have "1 < binary64 (2 * G_PI - 1)"
  proof -
    have "representable 53 5" using representable_of_int [of 5 53] by simp
    moreover have "5 \<le> 2 * G_PI - 1" using G_PI_bounds by simp
    ultimately have "5 \<le> binary64 (2 * G_PI - 1)" by (rule binary64_ge)
    then show ?thesis by simp
  qed
  ultimately show ?thesis
    using G_PI_bounds
    by (simp add: angular_distance_ieee_def angle_mod_2PI_ieee_id MIN_macro_def)
qed

lemma angular_distance_ieee_5_below_4:
  "angular_distance_ieee 5 (4 - 2 powi (- 51)) = 1 + 2 powi (- 51)"
proof -
  have r: "representable 53 (1 + 2 powi (- 51))"
    using representable_int [of "2 ^ 51 + 1" 53 "- 51"] by simp
  have d: "binary64 (5 - (4 - 2 powi (- 51))) = 1 + 2 powi (- 51)"
    using binary64_fix [OF r] by simp
  have "representable 53 4" by simp
  moreover have "4 \<le> 2 * G_PI - (1 + 2 powi (- 51))" using G_PI_bounds by simp
  ultimately have "4 \<le> binary64 (2 * G_PI - (1 + 2 powi (- 51)))" by (rule binary64_ge)
  then have z: "1 + 2 powi (- 51) < binary64 (2 * G_PI - (1 + 2 powi (- 51)))" by simp
  have m: "angle_mod_2PI_ieee (1 + 2 powi (- 51)) = 1 + 2 powi (- 51)"
    using G_PI_bounds by (intro angle_mod_2PI_ieee_id) simp_all
  show ?thesis
    unfolding angular_distance_ieee_def d m binary64_2_G_PI
    using z by (simp only: MIN_macro_def if_True)
qed

lemma angles_in_range_new: "angles_in_range gimp_dial_new_ieee"
  using G_PI_bounds by (simp add: angles_in_range_def gimp_dial_new_ieee_def)

section \<open>The claims\<close>

subsection \<open>Normalising an angle\<close>

text \<open>
  C3, as amended. For an input within one turn of the range (between \<open>-2\<pi>\<close> and \<open>4\<pi>\<close>)
  \<open>angle_mod_2PI\<close> returns a value in the closed interval from \<open>0\<close> to \<open>2\<pi>\<close>, and the
  function is idempotent on such inputs.
\<close>

theorem angle_mod_2PI_range_idem:
  assumes "- (2 * pi) \<le> x" and "x \<le> 4 * pi"
  shows "0 \<le> angle_mod_2PI x \<and> angle_mod_2PI x \<le> 2 * pi
       \<and> angle_mod_2PI (angle_mod_2PI x) = angle_mod_2PI x"
  using assms pi_gt_zero by (auto simp: angle_mod_2PI_def)

theorem angle_mod_2PI_range_idem_witness:
  "- (2 * pi) \<le> 3 * pi \<and> 3 * pi \<le> 4 * pi
   \<and> 0 \<le> angle_mod_2PI (3 * pi) \<and> angle_mod_2PI (3 * pi) \<le> 2 * pi
   \<and> angle_mod_2PI (3 * pi) = pi
   \<and> angle_mod_2PI (angle_mod_2PI (3 * pi)) = angle_mod_2PI (3 * pi)"
proof -
  have a: "- (2 * pi) \<le> 3 * pi" and b: "3 * pi \<le> 4 * pi"
    using pi_gt_zero by simp_all
  have v: "angle_mod_2PI (3 * pi) = pi"
    using pi_gt_zero by (simp add: angle_mod_2PI_def)
  from angle_mod_2PI_range_idem [OF a b] a b v show ?thesis by simp
qed

text \<open>
  C3, as stated, fails: the input \<open>2\<pi>\<close> lies within one turn of the range, is neither
  negative nor greater than \<open>2\<pi>\<close>, and is returned unchanged, outside \<open>[0, 2\<pi>)\<close>.
\<close>

theorem angle_mod_2PI_half_open_counterexample:
  "- (2 * pi) \<le> 2 * pi \<and> 2 * pi \<le> 4 * pi \<and> \<not> angle_mod_2PI (2 * pi) < 2 * pi"
  using pi_gt_zero by (simp add: angle_mod_2PI_def)

subsection \<open>The angle of a vector\<close>

text \<open>
  C7, as amended. In IEEE arithmetic, for every vector \<open>(dx, dy)\<close>, the origin included,
  \<open>arctg_ieee dy dx\<close> lies between \<open>0\<close> and \<open>2 * G_PI\<close>, both ends included;
  \<open>arctg_ieee 0 1 = 0\<close>, and \<open>arctg_ieee 1 0\<close>, \<open>arctg_ieee 0 (-1)\<close> and \<open>arctg_ieee (-1) 0\<close>
  are within \<open>2 powi (- 53)\<close>, \<open>2 powi (- 52)\<close> and \<open>2 powi (- 49)\<close> of \<open>\<pi>/2\<close>, \<open>\<pi>\<close> and \<open>3\<pi>/2\<close>.
\<close>

theorem arctg_ieee_range_values:
  "0 \<le> arctg_ieee dy dx \<and> arctg_ieee dy dx \<le> 2 * G_PI
   \<and> arctg_ieee 0 1 = 0
   \<and> \<bar>arctg_ieee 1 0 - pi / 2\<bar> \<le> 2 powi (- 53)
   \<and> \<bar>arctg_ieee 0 (- 1) - pi\<bar> \<le> 2 powi (- 52)
   \<and> \<bar>arctg_ieee (- 1) 0 - 3 * pi / 2\<bar> \<le> 2 powi (- 49)"
proof -
  have "arctg_ieee 0 1 = 0" by (rule arctg_ieee_east) simp
  moreover have "\<bar>arctg_ieee 0 (- 1) - pi\<bar> \<le> 2 powi (- 52)"
    unfolding arctg_ieee_west by (rule G_PI_error)
  ultimately show ?thesis
    using arctg_ieee_range [of dy dx] arctg_ieee_north_error arctg_ieee_south_error
    by blast
qed

text \<open>
  C7, as stated, fails: for the vector \<open>(50, - 2 powi (- 47))\<close>, just below the positive x
  axis, the arctangent is negative and smaller than half the spacing of \<^verbatim>\<open>gdouble\<close> at
  \<open>2 * G_PI\<close>, so \<^verbatim>\<open>temp + 2 * G_PI\<close> rounds to \<open>2 * G_PI\<close>, the upper end that the claim
  excludes.
\<close>

theorem arctg_ieee_reaches_2_G_PI_counterexample:
  "arctg_ieee (- (2 powi (- 47))) 50 = 2 * G_PI
   \<and> \<not> arctg_ieee (- (2 powi (- 47))) 50 < 2 * G_PI"
  by (simp only: arctg_ieee_below_axis less_irrefl simp_thms)

subsection \<open>The angular distance and the closest handle\<close>



text \<open>
  C4. \<open>closest\<close> returns \<open>DIAL_TARGET_ALPHA\<close> exactly when the angular distance from the
  first handle to the angle is strictly less than that from the second handle, and
  \<open>DIAL_TARGET_BETA\<close> otherwise; with the handles at \<open>0\<close> and \<open>\<pi>\<close> it returns
  \<open>DIAL_TARGET_ALPHA\<close> for the angle \<open>0.01\<close>, \<open>DIAL_TARGET_BETA\<close> for \<open>\<pi> - 0.01\<close> and, the
  two distances being equal, \<open>DIAL_TARGET_BETA\<close> for \<open>\<pi>/2\<close>.
\<close>

theorem closest_iff:
  "(closest a b t = DIAL_TARGET_ALPHA
      \<longleftrightarrow> angular_distance a t < angular_distance b t)
   \<and> (closest a b t = DIAL_TARGET_BETA
      \<longleftrightarrow> \<not> angular_distance a t < angular_distance b t)
   \<and> closest 0 pi (1 / 100) = DIAL_TARGET_ALPHA
   \<and> closest 0 pi (pi - 1 / 100) = DIAL_TARGET_BETA
   \<and> closest 0 pi (pi / 2) = DIAL_TARGET_BETA"
proof -
  have p: "2 \<le> pi" by (rule pi_ge_two)
  have "closest 0 pi (1 / 100) = DIAL_TARGET_ALPHA"
    using p by (simp add: closest_def angle_mod_2PI_def MIN_macro_def Let_def)
  moreover have "closest 0 pi (pi - 1 / 100) = DIAL_TARGET_BETA"
    using p by (simp add: closest_def angle_mod_2PI_def MIN_macro_def Let_def)
  moreover have "closest 0 pi (pi / 2) = DIAL_TARGET_BETA"
    using p by (simp add: closest_def angle_mod_2PI_def MIN_macro_def Let_def)
  ultimately show ?thesis
    by (simp add: closest_eq)
qed

text \<open>
  C10. \<open>min_prox\<close> is the angular distance between the angle and the handle that
  \<open>closest\<close> selects, and \<open>closest\<close> never selects both.
\<close>

theorem min_prox_closest_coherent:
  "min_prox a b t =
     angular_distance (if closest a b t = DIAL_TARGET_ALPHA then a else b) t
   \<and> closest a b t \<noteq> DIAL_TARGET_BOTH"
  by (simp add: min_prox_eq closest_eq MIN_macro_def)

subsection \<open>The press handler\<close>

text \<open>
  C1. On a press of the primary button that does not ask for the context menu, the press
  angle is stored; if the pointer is farther from the centre than \<open>0.3\<close> of the radius and
  \<open>min_prox\<close> of the two handles and the press angle is below \<open>\<pi>/12\<close>, the target is the
  handle \<open>closest\<close> selects, that handle's angle becomes the press angle and the other
  handle keeps its angle; in every other case the target is \<open>DIAL_TARGET_BOTH\<close> and both
  handles keep their angles.
\<close>

theorem press_decision:
  assumes "primary_press ctx bevent"
  shows "let pa = pointer_angle allocation (event_x bevent) (event_y bevent);
             dial' = gimp_dial_button_press_event ctx allocation dial bevent
         in press_angle dial' = pa
            \<and> (if pointer_distance allocation (event_x bevent) (event_y bevent)
                    > dial_radius allocation dial * 0.3
                  \<and> min_prox (alpha dial) (beta dial) pa < pi / 12
               then target dial' = closest (alpha dial) (beta dial) pa
                    \<and> (if target dial' = DIAL_TARGET_ALPHA
                        then alpha dial' = pa \<and> beta dial' = beta dial
                        else target dial' = DIAL_TARGET_BETA
                             \<and> beta dial' = pa \<and> alpha dial' = alpha dial)
               else target dial' = DIAL_TARGET_BOTH
                    \<and> alpha dial' = alpha dial \<and> beta dial' = beta dial)"
  by (simp add: press_primary_unfold [OF assms] Let_def EACH_OR_BOTH_def closest_eq)

theorem press_decision_witness:
  "primary_press no_context_menu (press_at 90 50)
   \<and> pointer_distance (square_allocation 100) 90 50 = 40
   \<and> dial_radius (square_allocation 100) (gimp_dial_new\<lparr>alpha := 1 / 10\<rparr>) = 50
   \<and> min_prox (1 / 10) pi 0 = 1 / 10 \<and> 1 / 10 < pi / 12
   \<and> (let dial' = gimp_dial_button_press_event no_context_menu (square_allocation 100)
                     (gimp_dial_new\<lparr>alpha := 1 / 10\<rparr>) (press_at 90 50)
       in press_angle dial' = 0 \<and> target dial' = DIAL_TARGET_ALPHA
          \<and> alpha dial' = 0 \<and> beta dial' = pi)"
proof -
  have p: "2 \<le> pi" by (rule pi_ge_two)
  have pa: "pointer_angle (square_allocation 100) 90 50 = 0"
    by (simp add: pointer_angle_def arctg_east angle_mod_2PI_def)
  have pd: "pointer_distance (square_allocation 100) 90 50 = 40"
    using pointer_distance_horizontal [of "square_allocation 100" 90] by simp
  have r: "dial_radius (square_allocation 100) (gimp_dial_new\<lparr>alpha := 1 / 10\<rparr>) = 50"
    by (simp add: dial_radius_def dial_size_def MIN_macro_def)
  have mp: "min_prox (1 / 10) pi 0 = 1 / 10"
    using p by (simp add: min_prox_def angle_mod_2PI_def MIN_macro_def Let_def)
  have cl: "closest (1 / 10) pi 0 = DIAL_TARGET_ALPHA"
    using p by (simp add: closest_def angle_mod_2PI_def MIN_macro_def Let_def)
  have lt: "1 / 10 < pi / 12" using p by simp
  show ?thesis
    using press_decision [OF primary_press_at, of "square_allocation 100" 90 50
        "gimp_dial_new\<lparr>alpha := 1 / 10\<rparr>"] pa pd r mp cl lt
    by (simp add: Let_def)
qed

text \<open>
  C5, as amended. When the size of the dial (the smaller side of the allocation minus twice
  the border width) is not negative, a primary press at the exact centre sets the target to
  \<open>DIAL_TARGET_BOTH\<close> and leaves both handles where they are, whatever their angles.
\<close>

theorem press_center_both:
  assumes "primary_press ctx bevent"
    and "pointer_distance allocation (event_x bevent) (event_y bevent) = 0"
    and "0 \<le> dial_size allocation dial"
  shows "target (gimp_dial_button_press_event ctx allocation dial bevent) = DIAL_TARGET_BOTH
       \<and> alpha (gimp_dial_button_press_event ctx allocation dial bevent) = alpha dial
       \<and> beta (gimp_dial_button_press_event ctx allocation dial bevent) = beta dial"
proof -
  have "0 \<le> dial_radius allocation dial * EACH_OR_BOTH"
    using assms(3) by (simp add: dial_radius_def EACH_OR_BOTH_def)
  then show ?thesis
    using assms(2) by (simp add: press_primary_unfold [OF assms(1)] Let_def)
qed

theorem press_center_both_witness:
  "primary_press no_context_menu (press_at 50 50)
   \<and> pointer_distance (square_allocation 100) 50 50 = 0
   \<and> 0 \<le> dial_size (square_allocation 100) gimp_dial_new
   \<and> target (gimp_dial_button_press_event no_context_menu (square_allocation 100)
               gimp_dial_new (press_at 50 50)) = DIAL_TARGET_BOTH
   \<and> alpha (gimp_dial_button_press_event no_context_menu (square_allocation 100)
               gimp_dial_new (press_at 50 50)) = 0
   \<and> beta (gimp_dial_button_press_event no_context_menu (square_allocation 100)
               gimp_dial_new (press_at 50 50)) = pi"
proof -
  have pd: "pointer_distance (square_allocation 100) (event_x (press_at 50 50))
              (event_y (press_at 50 50)) = 0"
    by (simp add: pointer_distance_zero_iff)
  have sz: "0 \<le> dial_size (square_allocation 100) gimp_dial_new"
    by (simp add: dial_size_def MIN_macro_def)
  show ?thesis
    using press_center_both [OF primary_press_at pd sz] pd sz by simp
qed

text \<open>
  C5, as stated, fails when the border is wider than half the allocation: the size, and with
  it the threshold \<open>0.3\<close> of the radius, is negative, the distance \<open>0\<close> exceeds it, the press
  angle at the centre is \<open>0\<close>, and a handle at \<open>0\<close> is grabbed. Here the allocation is
  \<open>100\<close> by \<open>100\<close> and the border width \<open>64\<close>, the largest value of the property.
\<close>

theorem press_center_negative_size_counterexample:
  "primary_press no_context_menu (press_at 50 50)
   \<and> pointer_distance (square_allocation 100) 50 50 = 0
   \<and> target (gimp_dial_button_press_event no_context_menu (square_allocation 100)
               (gimp_dial_new\<lparr>border_width := 64\<rparr>) (press_at 50 50)) = DIAL_TARGET_ALPHA
   \<and> target (gimp_dial_button_press_event no_context_menu (square_allocation 100)
               (gimp_dial_new\<lparr>border_width := 64\<rparr>) (press_at 50 50)) \<noteq> DIAL_TARGET_BOTH"
proof -
  have pd: "pointer_distance (square_allocation 100) 50 50 = 0"
    by (simp add: pointer_distance_zero_iff)
  have pa: "pointer_angle (square_allocation 100) 50 50 = 0"
    by (simp add: pointer_angle_def arctg_origin angle_mod_2PI_def)
  have r: "dial_radius (square_allocation 100) (gimp_dial_new\<lparr>border_width := 64\<rparr>) = - 14"
    by (simp add: dial_radius_def dial_size_def MIN_macro_def)
  have mp: "min_prox 0 pi 0 = 0"
    by (simp add: min_prox_def angle_mod_2PI_def MIN_macro_def Let_def)
  have cl: "closest 0 pi 0 = DIAL_TARGET_ALPHA"
    by (simp add: closest_def angle_mod_2PI_def MIN_macro_def Let_def)
  show ?thesis
    using pd pa r mp cl
    by (simp add: press_primary_unfold [OF primary_press_at] Let_def EACH_OR_BOTH_def)
qed

subsection \<open>The motion handler\<close>




subsection \<open>The range of the stored angles\<close>




subsection \<open>The background pass\<close>

text \<open>
  C9. For every pixel \<open>(i, j)\<close> of a surface of \<open>size'\<close> by \<open>size'\<close> pixels whose rows are at
  least \<open>4 * size'\<close> bytes apart (and whose byte offsets fit a \<^verbatim>\<open>gint\<close>), the pass leaves at
  the pixel's offset \<open>j * stride + i * 4\<close> the conversion of the hue \<open>arctg (size'/2 - j) (i - size'/2) / 2\<pi>\<close>, the
  saturation that is the distance from the centre divided by the radius \<open>size'/2\<close> and
  clamped to at most \<open>1\<close>, and the value \<open>1 - sqrt saturation / 4\<close>, with the opacity \<open>255\<close>.
\<close>

theorem background_pixel_hsv:
  assumes "0 \<le> i" and "i < size'" and "0 \<le> j" and "j < size'"
    and "4 * size' \<le> stride" and "size' * stride \<le> 2147483647"
  shows "gimp_dial_draw_background size' (gimp_dial_background_func_hsv gimp_hsv_to_rgb4) stride
           (j * stride + i * 4)
       = (let hue = arctg (real_of_int size' / 2 - real_of_int j)
                          (real_of_int i - real_of_int size' / 2) / (2 * pi);
              saturation = min 1 (sqrt ((real_of_int i - real_of_int size' / 2)\<^sup>2
                                        + (real_of_int j - real_of_int size' / 2)\<^sup>2)
                                  / (real_of_int size' / 2));
              val = 1 - sqrt saturation / 4;
              (r, g, b) = gimp_hsv_to_rgb4 hue saturation val
          in Some (r, g, b, 255))"
proof -
  have pos: "0 < size'" using assms(1,2) by simp
  have "gimp_dial_draw_background size' (gimp_dial_background_func_hsv gimp_hsv_to_rgb4) stride
           (j * stride + i * 4)
      = Some (background_pixel (gimp_dial_background_func_hsv gimp_hsv_to_rgb4) size' i j)"
    unfolding gimp_dial_draw_background_def
    by (rule draw_background_rows_at [OF assms(3,4,1,2,5)])
  then show ?thesis
    by (simp add: background_pixel_def gimp_dial_background_func_hsv_def Let_def
        background_distance [OF pos] MIN_macro_eq_min split: prod.split)
qed

theorem background_pixel_hsv_witness:
  "(0::int) \<le> 1 \<and> (1::int) < 2 \<and> (0::int) \<le> 0 \<and> (0::int) < 2
   \<and> 4 * 2 \<le> (8::int) \<and> 2 * 8 \<le> (2147483647::int)
   \<and> gimp_dial_draw_background 2
         (gimp_dial_background_func_hsv
            (\<lambda>h s v. (if h = 1 / 4 then 255 else 0, if s = 1 then 255 else 0,
                       if v = 3 / 4 then 255 else 0))) 8
         (0 * 8 + 1 * 4)
       = Some (255, 255, 255, 255)"
  using background_pixel_hsv [of 1 2 0 8
      "\<lambda>h s v. (if h = 1 / 4 then 255 else 0, if s = 1 then 255 else 0,
                 if v = 3 / 4 then 255 else 0)"]
  by (simp add: Let_def arctg_north)

end
